theory Spec2Isabelle
  imports Main
begin

section \<open>Common types\<close>

text \<open>
  The sources are three C++ translation units: the header of \<^verbatim>\<open>KaylesState\<close> (with its
  inline members), the implementation file of \<^verbatim>\<open>CrossoutState\<close>, and the header of
  \<^verbatim>\<open>Connect3State\<close> (with its inline members).

  Modelling conventions.
  \<^item> The build flags are not among the sources.  Unless stated otherwise the model is of
    the build with assertions enabled: a failed \<^verbatim>\<open>assert\<close> is the value
    \<open>Inl AssertionFailed\<close>.  The members of the build with \<^verbatim>\<open>NDEBUG\<close> defined, where every
    \<^verbatim>\<open>assert\<close> expands to nothing, carry the suffix \<open>_NDEBUG\<close>.  A read or write past the
    end of a vector (undefined behaviour in C++) is \<open>Inl OutOfRange\<close>.  A member that can
    fail returns \<open>error + 'a\<close>.
  \<^item> The C++ type \<^verbatim>\<open>int\<close> is modelled by the unbounded \<open>int\<close>, and the size of a vector
    by the length of a list.  This is exact for trays of at most 30 entries, where every
    value the code computes fits 32 bits; for a larger tray the shift \<^verbatim>\<open>1 << tray.size()\<close>
    of \<^verbatim>\<open>cacheHash\<close> overflows in C++, which the model does not represent.
  \<^item> In a comparison of an \<^verbatim>\<open>int\<close> with a size, C++ converts the \<^verbatim>\<open>int\<close> to the unsigned
    type of the size.  A value that is not negative is unchanged.  A negative value
    becomes a number above every size a vector can have, so \<^verbatim>\<open>i < v.size()\<close> is false
    for it: the comparison is modelled as \<open>0 \<le> i \<and> i < int (length v)\<close>.  The one
    comparison in the sources that a negative value reaches is
    \<^verbatim>\<open>assert( secondTheft<tray.size() )\<close> in the advancing constructor.
  \<^item> \<^verbatim>\<open>a || b\<close> and \<^verbatim>\<open>a && b\<close> are written as nested conditionals, in their order
    of evaluation.
\<close>

datatype error = AssertionFailed | OutOfRange

text \<open>The enumeration \<^verbatim>\<open>Score\<close> (\<^verbatim>\<open>LOSS=-1, TIE=0, VICTORY=1\<close>), declared alike in every class.\<close>

datatype Score = LOSS | TIE | VICTORY

text \<open>
  \<^verbatim>\<open>std::equal(first1, last1, first2)\<close>: compares the first range with the range of the same
  length that starts at \<^verbatim>\<open>first2\<close>, stopping at the first mismatch.  It never looks
  at the length of the second range: reading past its end is undefined behaviour.
\<close>

fun std_equal :: "'a list \<Rightarrow> 'a list \<Rightarrow> error + bool" where
  "std_equal [] ys = Inr True"
| "std_equal (x # xs) [] = Inl OutOfRange"
| "std_equal (x # xs) (y # ys) = (if x = y then std_equal xs ys else Inr False)"

section \<open>CrossoutState\<close>

record CrossoutState =
  MAX_SUM :: int
  tray :: "bool list"
  ourTurn :: bool
  hashCode :: int

text \<open>
  Modelled from the spec: the header \<^verbatim>\<open>CrossoutState.h\<close> is not among the sources, so the
  constants \<^verbatim>\<open>MIN_TAKEN\<close> and \<^verbatim>\<open>MAX_TAKEN\<close> are taken from the rule "a move
  removes one or two still-present numbers" (they are 1 and 2 in \<^verbatim>\<open>KaylesState\<close> too).
\<close>

definition MIN_TAKEN :: int where
  "MIN_TAKEN = 1"

definition MAX_TAKEN :: int where
  "MAX_TAKEN = 2"

text \<open>
  Modelled from the spec: the default value of the parameter \<^verbatim>\<open>secondTheft\<close> is declared
  in the absent header.  \<^verbatim>\<open>successors\<close> calls \<^verbatim>\<open>CrossoutState( *this, first )\<close> for
  the removal of one number; the constructor takes no second number exactly when
  \<^verbatim>\<open>secondTheft\<close>, once decremented, is not above \<open>-1\<close>.  No statement below depends
  on the value chosen beyond its being at most 0.
\<close>

definition secondTheft_default :: int where
  "secondTheft_default = 0"

subsection \<open>cacheHash\<close>

text \<open>The loop of \<^verbatim>\<open>cacheHash\<close>: \<^verbatim>\<open>hashCode+=( *count ? 1 : 0 )<<( count-tray.begin() )\<close>.\<close>

fun cacheHash_loop :: "bool list \<Rightarrow> nat \<Rightarrow> int \<Rightarrow> int" where
  "cacheHash_loop [] position h = h"
| "cacheHash_loop (b # bs) position h =
     cacheHash_loop bs (Suc position) (h + (if b then 1 else 0) * 2 ^ position)"

definition cacheHash :: "CrossoutState \<Rightarrow> error + CrossoutState" where
  "cacheHash s =
     (let h0 = (if ourTurn s then 1 else 0) * 2 ^ length (tray s);
          h1 = cacheHash_loop (tray s) 0 h0;
          h2 = \<bar>h1\<bar>
      in if h2 \<ge> 0 then Inr (s\<lparr>hashCode := h2\<rparr>) else Inl AssertionFailed)"

definition CrossoutState_hash :: "CrossoutState \<Rightarrow> int" where
  "CrossoutState_hash s = hashCode s"

subsection \<open>Constructors\<close>

text \<open>\<^verbatim>\<open>CrossoutState( int greedyDivide, int highValue, bool weAreUp )\<close>.\<close>

definition CrossoutState_new :: "int \<Rightarrow> int \<Rightarrow> bool \<Rightarrow> error + CrossoutState" where
  "CrossoutState_new greedyDivide highValue weAreUp =
     cacheHash \<lparr>MAX_SUM = greedyDivide, tray = replicate (nat highValue) True,
                ourTurn = weAreUp, hashCode = 0\<rparr>"

text \<open>
  The advancing constructor
  \<^verbatim>\<open>CrossoutState( const CrossoutState& baseState, int firstTheft, int secondTheft )\<close>.
  The arguments are 1-based; the body first switches them to 0-based indices.  Its
  second assertion, \<^verbatim>\<open>assert( secondTheft<tray.size() )\<close>, compares an \<^verbatim>\<open>int\<close> with a size:
  it fails for a negative \<^verbatim>\<open>secondTheft\<close>, so the branch without a second number, which
  the test \<^verbatim>\<open>if( secondTheft>-1 )\<close> provides for, is never reached in this build.
\<close>

definition CrossoutState_advance :: "CrossoutState \<Rightarrow> int \<Rightarrow> int \<Rightarrow> error + CrossoutState" where
  "CrossoutState_advance baseState firstTheft1 secondTheft1 =
     (let s = \<lparr>MAX_SUM = MAX_SUM baseState, tray = tray baseState,
                ourTurn = (\<not> ourTurn baseState), hashCode = 0\<rparr>;
          firstTheft = firstTheft1 - 1;
          secondTheft = secondTheft1 - 1
      in if \<not> (firstTheft \<ge> 0 \<and> firstTheft < int (length (tray s))) then Inl AssertionFailed
         else if \<not> (0 \<le> secondTheft \<and> secondTheft < int (length (tray s)))
              then Inl AssertionFailed
         else if \<not> (tray s ! nat firstTheft) then Inl AssertionFailed
         else
           (let s1 = s\<lparr>tray := (tray s)[nat firstTheft := False]\<rparr>
            in if secondTheft > -1
               then (if \<not> (tray s1 ! nat secondTheft) then Inl AssertionFailed
                     else cacheHash (s1\<lparr>tray := (tray s1)[nat secondTheft := False]\<rparr>))
               else cacheHash s1))"

text \<open>
  The positions that exist in a run of the build with assertions: those the two
  constructors return.  (The copy constructor and \<^verbatim>\<open>operator=\<close> copy such a position.)
\<close>

inductive constructed :: "CrossoutState \<Rightarrow> bool" where
  initial: "CrossoutState_new greedyDivide highValue weAreUp = Inr s \<Longrightarrow> constructed s"
| advanced: "constructed baseState \<Longrightarrow>
     CrossoutState_advance baseState firstTheft secondTheft = Inr s \<Longrightarrow> constructed s"

subsection \<open>gameOver, scoreGame, computersTurn\<close>

function gameOver_loop :: "CrossoutState \<Rightarrow> int \<Rightarrow> bool" where
  "gameOver_loop s location =
     (if location < int (length (tray s)) \<and> location < MAX_TAKEN
      then (if tray s ! nat location then False else gameOver_loop s (location + 1))
      else True)"
  by pat_completeness auto
termination
  by (relation "measure (\<lambda>(s, location). nat (int (length (tray s)) - location))") auto

definition CrossoutState_gameOver :: "CrossoutState \<Rightarrow> bool" where
  "CrossoutState_gameOver s = gameOver_loop s 0"

definition CrossoutState_scoreGame :: "CrossoutState \<Rightarrow> Score" where
  "CrossoutState_scoreGame s =
     (if CrossoutState_gameOver s
      then (if ourTurn s then LOSS else VICTORY)
      else TIE)"

definition CrossoutState_computersTurn :: "CrossoutState \<Rightarrow> bool" where
  "CrossoutState_computersTurn s = ourTurn s"

subsection \<open>successors\<close>

text \<open>
  The two loops of \<^verbatim>\<open>successors\<close> read only \<^verbatim>\<open>*this\<close>, so they are modelled in two
  steps: \<open>successors_calls\<close> runs the loops and lists the arguments of the constructor
  calls in the order in which they are made; \<open>CrossoutState_successors\<close> makes the
  calls in that order and stops at the first failed assertion.
\<close>

function successors_inner :: "CrossoutState \<Rightarrow> int \<Rightarrow> int \<Rightarrow> (int \<times> int) list" where
  "successors_inner s first second =
     (if second \<le> int (length (tray s)) \<and> first + second \<le> MAX_SUM s
      then (if tray s ! nat (second - 1) then [(first, second)] else [])
           @ successors_inner s first (second + 1)
      else [])"
  by pat_completeness auto
termination
  by (relation "measure (\<lambda>(s, first, second). nat (int (length (tray s)) + 1 - second))") auto

function successors_outer :: "CrossoutState \<Rightarrow> int \<Rightarrow> (int \<times> int) list" where
  "successors_outer s first =
     (if first \<le> int (length (tray s)) \<and> first \<le> MAX_SUM s
      then (if tray s ! nat (first - 1)
            then (first, secondTheft_default) # successors_inner s first 1
            else [])
           @ successors_outer s (first + 1)
      else [])"
  by pat_completeness auto
termination
  by (relation "measure (\<lambda>(s, first). nat (int (length (tray s)) + 1 - first))") auto

definition successors_calls :: "CrossoutState \<Rightarrow> (int \<times> int) list" where
  "successors_calls s = successors_outer s 1"

fun construct_all :: "CrossoutState \<Rightarrow> (int \<times> int) list \<Rightarrow> error + CrossoutState list" where
  "construct_all s [] = Inr []"
| "construct_all s ((firstTheft, secondTheft) # calls) =
     (case CrossoutState_advance s firstTheft secondTheft of
        Inl e \<Rightarrow> Inl e
      | Inr p \<Rightarrow> (case construct_all s calls of
                    Inl e \<Rightarrow> Inl e
                  | Inr possibilities \<Rightarrow> Inr (p # possibilities)))"

definition CrossoutState_successors :: "CrossoutState \<Rightarrow> error + CrossoutState list" where
  "CrossoutState_successors s = construct_all s (successors_calls s)"

subsection \<open>operator==\<close>

definition CrossoutState_operator_eq :: "CrossoutState \<Rightarrow> CrossoutState \<Rightarrow> error + bool" where
  "CrossoutState_operator_eq self another =
     (if MAX_SUM self = MAX_SUM another
      then (case std_equal (tray self) (tray another) of
              Inl e \<Rightarrow> Inl e
            | Inr same \<Rightarrow> (if same then Inr (ourTurn self = ourTurn another) else Inr False))
      else Inr False)"

subsection \<open>areSubsequent and diff\<close>

text \<open>
  The loop of \<^verbatim>\<open>areSubsequent\<close>: \<open>None\<close> is the early \<^verbatim>\<open>return false\<close> (a number was
  uncrossed), \<open>Some (count, sum)\<close> the counters at the end of the loop.
\<close>

function areSubsequent_loop ::
  "bool list \<Rightarrow> bool list \<Rightarrow> nat \<Rightarrow> int \<Rightarrow> int \<Rightarrow> (int \<times> int) option" where
  "areSubsequent_loop firstTray nextTray num count sumv =
     (if num < length firstTray
      then (if nextTray ! num \<and> \<not> firstTray ! num then None
            else if firstTray ! num \<and> \<not> nextTray ! num
                 then areSubsequent_loop firstTray nextTray (num + 1) (count + 1) (sumv + (int num + 1))
                 else areSubsequent_loop firstTray nextTray (num + 1) count sumv)
      else Some (count, sumv))"
  by pat_completeness auto
termination
  by (relation "measure (\<lambda>(firstTray, nextTray, num, count, sumv). length firstTray - num)") auto

definition CrossoutState_areSubsequent :: "CrossoutState \<Rightarrow> CrossoutState \<Rightarrow> bool" where
  "CrossoutState_areSubsequent first next =
     (if MAX_SUM first = MAX_SUM next
      then (if length (tray first) = length (tray next)
            then (if ourTurn first = ourTurn next then False
                  else (case areSubsequent_loop (tray first) (tray next) 0 0 0 of
                          None \<Rightarrow> False
                        | Some (count, sumv) \<Rightarrow>
                            count \<ge> MIN_TAKEN \<and> count \<le> MAX_TAKEN \<and> sumv \<le> MAX_SUM first))
            else False)
      else False)"

function diff_loop :: "bool list \<Rightarrow> bool list \<Rightarrow> nat \<Rightarrow> int list" where
  "diff_loop firstTray nextTray num =
     (if num < length firstTray
      then (if firstTray ! num = nextTray ! num then [] else [int num + 1])
           @ diff_loop firstTray nextTray (num + 1)
      else [])"
  by pat_completeness auto
termination
  by (relation "measure (\<lambda>(firstTray, nextTray, num). length firstTray - num)") auto

definition CrossoutState_diff :: "CrossoutState \<Rightarrow> CrossoutState \<Rightarrow> error + int list" where
  "CrossoutState_diff first next =
     (if CrossoutState_areSubsequent first next
      then Inr (diff_loop (tray first) (tray next) 0)
      else Inl AssertionFailed)"

subsection \<open>The build without assertions\<close>

text \<open>
  With \<^verbatim>\<open>NDEBUG\<close> defined the assertions of \<^verbatim>\<open>cacheHash\<close>, of the advancing constructor
  and of \<^verbatim>\<open>diff\<close> are gone; the other members have none.  What an assertion guarded
  is then undefined behaviour where it is a read or write past the end of the tray.
\<close>

definition cacheHash_NDEBUG :: "CrossoutState \<Rightarrow> CrossoutState" where
  "cacheHash_NDEBUG s =
     (let h0 = (if ourTurn s then 1 else 0) * 2 ^ length (tray s);
          h1 = cacheHash_loop (tray s) 0 h0;
          h2 = \<bar>h1\<bar>
      in s\<lparr>hashCode := h2\<rparr>)"

definition CrossoutState_advance_NDEBUG ::
  "CrossoutState \<Rightarrow> int \<Rightarrow> int \<Rightarrow> error + CrossoutState" where
  "CrossoutState_advance_NDEBUG baseState firstTheft1 secondTheft1 =
     (let s = \<lparr>MAX_SUM = MAX_SUM baseState, tray = tray baseState,
                ourTurn = (\<not> ourTurn baseState), hashCode = 0\<rparr>;
          firstTheft = firstTheft1 - 1;
          secondTheft = secondTheft1 - 1
      in if \<not> (0 \<le> firstTheft \<and> firstTheft < int (length (tray s))) then Inl OutOfRange
         else
           (let s1 = s\<lparr>tray := (tray s)[nat firstTheft := False]\<rparr>
            in if secondTheft > -1
               then (if \<not> (secondTheft < int (length (tray s1))) then Inl OutOfRange
                     else Inr (cacheHash_NDEBUG
                                 (s1\<lparr>tray := (tray s1)[nat secondTheft := False]\<rparr>)))
               else Inr (cacheHash_NDEBUG s1)))"

fun construct_all_NDEBUG ::
  "CrossoutState \<Rightarrow> (int \<times> int) list \<Rightarrow> error + CrossoutState list" where
  "construct_all_NDEBUG s [] = Inr []"
| "construct_all_NDEBUG s ((firstTheft, secondTheft) # calls) =
     (case CrossoutState_advance_NDEBUG s firstTheft secondTheft of
        Inl e \<Rightarrow> Inl e
      | Inr p \<Rightarrow> (case construct_all_NDEBUG s calls of
                    Inl e \<Rightarrow> Inl e
                  | Inr possibilities \<Rightarrow> Inr (p # possibilities)))"

definition CrossoutState_successors_NDEBUG :: "CrossoutState \<Rightarrow> error + CrossoutState list" where
  "CrossoutState_successors_NDEBUG s = construct_all_NDEBUG s (successors_calls s)"

text \<open>
  \<^verbatim>\<open>diff\<close> without its assertion: the loop runs over the first tray and reads the same
  index of the second, whatever \<^verbatim>\<open>areSubsequent\<close> returned.
\<close>

definition CrossoutState_diff_NDEBUG :: "CrossoutState \<Rightarrow> CrossoutState \<Rightarrow> error + int list" where
  "CrossoutState_diff_NDEBUG first next =
     (if length (tray first) \<le> length (tray next)
      then Inr (diff_loop (tray first) (tray next) 0)
      else Inl OutOfRange)"

section \<open>KaylesState\<close>

record KaylesState =
  pins :: "int list"
  kayles_ourTurn :: bool
  kayles_hashCode :: int

text \<open>
  The header declares \<^verbatim>\<open>gameOver\<close>, \<^verbatim>\<open>successors\<close>, \<^verbatim>\<open>cacheHash\<close> and the other
  non-inline members, and defines none of them.  \<^verbatim>\<open>scoreGame\<close> calls \<^verbatim>\<open>gameOver()\<close>,
  which is therefore a parameter of its model.
\<close>

definition KaylesState_scoreGame :: "(KaylesState \<Rightarrow> bool) \<Rightarrow> KaylesState \<Rightarrow> Score" where
  "KaylesState_scoreGame gameOver s =
     (if gameOver s
      then (if kayles_ourTurn s then LOSS else VICTORY)
      else TIE)"

definition KaylesState_computersTurn :: "KaylesState \<Rightarrow> bool" where
  "KaylesState_computersTurn s = kayles_ourTurn s"

definition KaylesState_groupsOfPins :: "KaylesState \<Rightarrow> int" where
  "KaylesState_groupsOfPins s = int (length (pins s))"

text \<open>\<^verbatim>\<open>pinsInGroup( unsigned int group )\<close>: the argument is unsigned, hence a \<open>nat\<close>.\<close>

definition KaylesState_pinsInGroup :: "KaylesState \<Rightarrow> nat \<Rightarrow> int" where
  "KaylesState_pinsInGroup s grp =
     (if grp \<ge> length (pins s) then -1 else pins s ! grp)"

definition KaylesState_hash :: "KaylesState \<Rightarrow> int" where
  "KaylesState_hash s = kayles_hashCode s"

definition KaylesState_operator_eq :: "KaylesState \<Rightarrow> KaylesState \<Rightarrow> error + bool" where
  "KaylesState_operator_eq self another =
     (if kayles_ourTurn self = kayles_ourTurn another
      then (if length (pins self) = length (pins another)
            then std_equal (pins self) (pins another)
            else Inr False)
      else Inr False)"

section \<open>Connect3State\<close>

record Connect3State =
  COLUMNS :: nat
  ELEMENTS :: nat
  mySymbol :: int
  board :: "char list list"
  connect3_ourTurn :: bool
  finalOutcome :: Score
  connect3_hashCode :: int

definition Connect3State_scoreGame :: "Connect3State \<Rightarrow> Score" where
  "Connect3State_scoreGame s = finalOutcome s"

definition Connect3State_computersTurn :: "Connect3State \<Rightarrow> bool" where
  "Connect3State_computersTurn s = connect3_ourTurn s"

text \<open>
  \<^verbatim>\<open>hasSpaceAt( unsigned int column )\<close> asserts that the column is below \<^verbatim>\<open>COLUMNS\<close>
  before it reads \<^verbatim>\<open>board[column]\<close>.
\<close>

definition Connect3State_hasSpaceAt :: "Connect3State \<Rightarrow> nat \<Rightarrow> error + bool" where
  "Connect3State_hasSpaceAt s column =
     (if \<not> (column < COLUMNS s) then Inl AssertionFailed
      else if column < length (board s) then Inr (length (board s ! column) < ELEMENTS s)
      else Inl OutOfRange)"

definition Connect3State_hash :: "Connect3State \<Rightarrow> int" where
  "Connect3State_hash s = connect3_hashCode s"

section \<open>Basic facts\<close>

declare gameOver_loop.simps [simp del]
declare successors_inner.simps [simp del]
declare successors_outer.simps [simp del]
declare areSubsequent_loop.simps [simp del]
declare diff_loop.simps [simp del]

subsection \<open>The hash and the constructors\<close>

text \<open>
  \<^verbatim>\<open>cacheHash\<close> always succeeds in the model: the integers are unbounded, so the
  absolute value is never negative.  The advancing constructor then has four outcomes.
\<close>

subsection \<open>The hash and the constructors\<close>

text \<open>
  \<^verbatim>\<open>cacheHash\<close> always succeeds in the model: the integers are unbounded, so the
  absolute value is never negative.  With assertions enabled the advancing constructor
  returns a position exactly when it is given two distinct present numbers within the
  tray; a call without a second number fails the assertion on \<^verbatim>\<open>secondTheft\<close>.
\<close>

lemma cacheHash_Inr:
  "cacheHash s =
     Inr (s\<lparr>hashCode :=
            \<bar>cacheHash_loop (tray s) 0 ((if ourTurn s then 1 else 0) * 2 ^ length (tray s))\<bar>\<rparr>)"
  by (simp add: cacheHash_def Let_def)

lemma cacheHash_fields:
  "cacheHash s = Inr r \<Longrightarrow> MAX_SUM r = MAX_SUM s \<and> tray r = tray s \<and> ourTurn r = ourTurn s"
  by (auto simp: cacheHash_Inr)

lemma cacheHash_up_to_date:
  "cacheHash x = Inr s \<Longrightarrow> cacheHash s = Inr s"
  by (auto simp: cacheHash_Inr)

lemma advance_single_aborts:
  "b \<le> 0 \<Longrightarrow> CrossoutState_advance s a b = Inl AssertionFailed"
  by (simp add: CrossoutState_advance_def Let_def)

lemma advance_pair:
  assumes "1 \<le> a" and "a \<le> int (length (tray s))" and "tray s ! nat (a - 1)"
    and "1 \<le> b" and "b \<le> int (length (tray s))" and "tray s ! nat (b - 1)" and "a \<noteq> b"
  shows "CrossoutState_advance s a b =
     cacheHash \<lparr>MAX_SUM = MAX_SUM s, tray = (tray s)[nat (a - 1) := False, nat (b - 1) := False],
                ourTurn = (\<not> ourTurn s), hashCode = 0\<rparr>"
proof -
  have "nat (a - 1) \<noteq> nat (b - 1)" using assms by auto
  then show ?thesis
    using assms by (simp add: CrossoutState_advance_def Let_def)
qed

lemma advance_same:
  assumes "1 \<le> a" and "a \<le> int (length (tray s))"
  shows "CrossoutState_advance s a a = Inl AssertionFailed"
  using assms by (simp add: CrossoutState_advance_def Let_def)

lemma advance_absent:
  assumes "1 \<le> a" and "a \<le> int (length (tray s))"
    and "1 \<le> b" and "b \<le> int (length (tray s))"
    and "\<not> tray s ! nat (a - 1) \<or> \<not> tray s ! nat (b - 1)"
  shows "CrossoutState_advance s a b = Inl AssertionFailed"
proof -
  have "nat (b - 1) < length (tray s)" using assms by auto
  then show ?thesis
    using assms by (auto simp: CrossoutState_advance_def Let_def nth_list_update)
qed

lemma advance_error:
  "CrossoutState_advance s a b = Inl e \<Longrightarrow> e = AssertionFailed"
  by (auto simp: CrossoutState_advance_def Let_def cacheHash_Inr split: if_splits)

lemma advance_Inr_cases:
  assumes "CrossoutState_advance s a b = Inr r"
  shows "1 \<le> a \<and> a \<le> int (length (tray s)) \<and> tray s ! nat (a - 1) \<and>
         1 \<le> b \<and> b \<le> int (length (tray s)) \<and> tray s ! nat (b - 1) \<and> a \<noteq> b \<and>
         cacheHash \<lparr>MAX_SUM = MAX_SUM s,
                    tray = (tray s)[nat (a - 1) := False, nat (b - 1) := False],
                    ourTurn = (\<not> ourTurn s), hashCode = 0\<rparr> = Inr r"
proof -
  have b1: "1 \<le> b"
  proof (rule ccontr)
    assume "\<not> 1 \<le> b"
    then have "b \<le> 0" by simp
    from advance_single_aborts [OF this] assms show False by simp
  qed
  have a1: "1 \<le> a \<and> a \<le> int (length (tray s))"
    using assms by (auto simp: CrossoutState_advance_def Let_def split: if_splits)
  have b2: "b \<le> int (length (tray s))"
    using assms by (auto simp: CrossoutState_advance_def Let_def split: if_splits)
  have ne: "a \<noteq> b"
    using advance_same [of a s] a1 assms by auto
  have pres: "tray s ! nat (a - 1) \<and> tray s ! nat (b - 1)"
    using advance_absent [of a s b] a1 b1 b2 assms by auto
  from advance_pair [of a s b] a1 b1 b2 ne pres assms
  show ?thesis by simp
qed

subsection \<open>Constructed positions\<close>

text \<open>
  A position that exists with assertions enabled has an up-to-date hash and an even
  number of crossed-out entries, since every removal that succeeds there takes two
  numbers.
\<close>

lemma constructed_up_to_date:
  "constructed s \<Longrightarrow> cacheHash s = Inr s"
proof (induction rule: constructed.induct)
  case (initial greedyDivide highValue weAreUp s)
  then show ?case
    unfolding CrossoutState_new_def by (rule cacheHash_up_to_date)
next
  case (advanced baseState firstTheft secondTheft s)
  from advance_Inr_cases [OF advanced.hyps(2)] show ?case
    by (blast intro: cacheHash_up_to_date)
qed

lemma crossed_update:
  assumes "i0 < length t" and "t ! i0"
  shows "{i. i < length (t[i0 := False]) \<and> \<not> t[i0 := False] ! i} =
           insert i0 {i. i < length t \<and> \<not> t ! i}"
    and "i0 \<notin> {i. i < length t \<and> \<not> t ! i}"
  using assms by (auto simp: nth_list_update split: if_splits)

lemma card_crossed_update:
  assumes "i0 < length t" and "t ! i0"
  shows "card {i. i < length (t[i0 := False]) \<and> \<not> t[i0 := False] ! i} =
           Suc (card {i. i < length t \<and> \<not> t ! i})"
  unfolding crossed_update(1) [OF assms]
  using crossed_update(2) [OF assms] by simp

lemma constructed_even:
  "constructed s \<Longrightarrow> even (card {i. i < length (tray s) \<and> \<not> tray s ! i})"
proof (induction rule: constructed.induct)
  case (initial greedyDivide highValue weAreUp s)
  then have "tray s = replicate (nat highValue) True"
    by (auto simp: CrossoutState_new_def cacheHash_Inr)
  then have "{i. i < length (tray s) \<and> \<not> tray s ! i} = {}" by auto
  then show ?case by (simp only: card.empty even_zero)
next
  case (advanced baseState firstTheft secondTheft s)
  let ?t = "tray baseState"
  let ?a = "nat (firstTheft - 1)" and ?b = "nat (secondTheft - 1)"
  from advance_Inr_cases [OF advanced.hyps(2)]
  have a: "?a < length ?t" "?t ! ?a" and b: "?b < length ?t" "?t ! ?b" and ne: "?a \<noteq> ?b"
    and r: "cacheHash \<lparr>MAX_SUM = MAX_SUM baseState, tray = ?t[?a := False, ?b := False],
                        ourTurn = (\<not> ourTurn baseState), hashCode = 0\<rparr> = Inr s"
    by auto
  from cacheHash_fields [OF r] have t: "tray s = ?t[?a := False, ?b := False]" by simp
  have b': "?b < length (?t[?a := False])" "?t[?a := False] ! ?b"
    using b ne by simp_all
  have "card {i. i < length (tray s) \<and> \<not> tray s ! i} =
      Suc (Suc (card {i. i < length ?t \<and> \<not> ?t ! i}))"
    unfolding t card_crossed_update [OF b'] card_crossed_update [OF a] ..
  then show ?case using advanced.IH by simp
qed

subsection \<open>Equality\<close>

text \<open>
  For containers of equal size \<^verbatim>\<open>std::equal\<close> is equality.  \<^verbatim>\<open>KaylesState::operator==\<close>
  compares the sizes first, so it is equality of turn and pins;
  \<^verbatim>\<open>CrossoutState::operator==\<close> is equality of bound, tray and turn when the trays
  have the same size, and then the cached hashes agree.
\<close>

lemma std_equal_same_length:
  "length xs = length ys \<Longrightarrow> std_equal xs ys = Inr (xs = ys)"
  by (induction xs ys rule: list_induct2) auto

lemma KaylesState_operator_eq_iff:
  "KaylesState_operator_eq p q =
     Inr (kayles_ourTurn p = kayles_ourTurn q \<and> pins p = pins q)"
  by (auto simp: KaylesState_operator_eq_def std_equal_same_length)

lemma CrossoutState_operator_eq_same_length:
  "length (tray p) = length (tray q) \<Longrightarrow>
   CrossoutState_operator_eq p q =
     Inr (MAX_SUM p = MAX_SUM q \<and> tray p = tray q \<and> ourTurn p = ourTurn q)"
  by (auto simp: CrossoutState_operator_eq_def std_equal_same_length)

lemma cacheHash_cong:
  assumes "cacheHash p = Inr p'" and "cacheHash q = Inr q'"
    and "length (tray p) = length (tray q)"
    and "CrossoutState_operator_eq p' q' = Inr True"
  shows "CrossoutState_hash p' = CrossoutState_hash q'"
proof -
  have p': "p' = p\<lparr>hashCode := \<bar>cacheHash_loop (tray p) 0 ((if ourTurn p then 1 else 0) * 2 ^ length (tray p))\<bar>\<rparr>"
    using assms(1) by (simp add: cacheHash_Inr)
  have q': "q' = q\<lparr>hashCode := \<bar>cacheHash_loop (tray q) 0 ((if ourTurn q then 1 else 0) * 2 ^ length (tray q))\<bar>\<rparr>"
    using assms(2) by (simp add: cacheHash_Inr)
  have "length (tray p') = length (tray q')"
    using assms(3) by (simp add: p' q')
  from CrossoutState_operator_eq_same_length [OF this] assms(4)
  have "tray p' = tray q'" and "ourTurn p' = ourTurn q'" by simp_all
  then have "tray p = tray q" and "ourTurn p = ourTurn q" by (simp_all add: p' q')
  then show ?thesis
    by (simp add: CrossoutState_hash_def p' q')
qed

subsection \<open>gameOver\<close>

text \<open>
  With \<^verbatim>\<open>MAX_TAKEN\<close> = 2 the loop of \<^verbatim>\<open>gameOver\<close> reads the first two entries of the
  tray and nothing else.
\<close>

lemma gameOver_two_entries:
  "CrossoutState_gameOver s \<longleftrightarrow>
     (\<forall>i < length (tray s). i < 2 \<longrightarrow> \<not> tray s ! i)"
proof -
  have step: "\<And>l. gameOver_loop s l =
      (if l < int (length (tray s)) \<and> l < 2
       then (if tray s ! nat l then False else gameOver_loop s (l + 1)) else True)"
    by (subst gameOver_loop.simps) (simp add: MAX_TAKEN_def)
  have two: "gameOver_loop s 2 = True"
    by (subst step) simp
  have one: "gameOver_loop s 1 = (1 < length (tray s) \<longrightarrow> \<not> tray s ! 1)"
    by (subst step) (auto simp: two)
  have zero: "gameOver_loop s 0 =
      ((0 < length (tray s) \<longrightarrow> \<not> tray s ! 0) \<and> (1 < length (tray s) \<longrightarrow> \<not> tray s ! 1))"
    by (subst step) (auto simp: one)
  have "(\<forall>i < length (tray s). i < 2 \<longrightarrow> \<not> tray s ! i) =
      ((0 < length (tray s) \<longrightarrow> \<not> tray s ! 0) \<and> (1 < length (tray s) \<longrightarrow> \<not> tray s ! 1))"
    by (auto simp: less_2_cases_iff)
  then show ?thesis
    by (simp only: CrossoutState_gameOver_def zero)
qed

subsection \<open>The loops of areSubsequent and diff\<close>

text \<open>
  The loops are characterised by the indices below the size of the tray: none may be
  uncrossed, and the crossed-out ones are counted and summed (as 1-based numbers).
  Two constructed positions of which \<^verbatim>\<open>areSubsequent\<close> is true differ in exactly two
  numbers.
\<close>

lemma areSubsequent_loop_step:
  "num < length ft \<Longrightarrow>
   areSubsequent_loop ft nt num c s =
     (if nt ! num \<and> \<not> ft ! num then None
      else if ft ! num \<and> \<not> nt ! num
           then areSubsequent_loop ft nt (Suc num) (c + 1) (s + (int num + 1))
           else areSubsequent_loop ft nt (Suc num) c s)"
  by (subst areSubsequent_loop.simps) simp

lemma areSubsequent_loop_stop:
  "\<not> num < length ft \<Longrightarrow> areSubsequent_loop ft nt num c s = Some (c, s)"
  by (subst areSubsequent_loop.simps) simp

lemma areSubsequent_loop_eq:
  "areSubsequent_loop ft nt num c s =
     (if list_ex (\<lambda>i. nt ! i \<and> \<not> ft ! i) [num..<length ft] then None
      else Some (c + int (length (filter (\<lambda>i. ft ! i \<and> \<not> nt ! i) [num..<length ft])),
                 s + sum_list (map (\<lambda>i. int i + 1) (filter (\<lambda>i. ft ! i \<and> \<not> nt ! i) [num..<length ft]))))"
proof (induction ft nt num c s rule: areSubsequent_loop.induct)
  case (1 ft nt num c s)
  show ?case
  proof (cases "num < length ft")
    case False
    then show ?thesis
      by (simp add: areSubsequent_loop_stop)
  next
    case True
    have up: "[num..<length ft] = num # [num + 1..<length ft]"
      using True by (simp add: upt_conv_Cons)
    show ?thesis
    proof (cases "nt ! num \<and> \<not> ft ! num")
      case u: True
      have "areSubsequent_loop ft nt num c s = None"
        using u by (simp add: areSubsequent_loop_step [OF True])
      moreover have "list_ex (\<lambda>i. nt ! i \<and> \<not> ft ! i) [num..<length ft]"
        using u by (subst up) simp
      ultimately show ?thesis by simp
    next
      case nu: False
      show ?thesis
      proof (cases "ft ! num \<and> \<not> nt ! num")
        case d: True
        have a: "areSubsequent_loop ft nt num c s =
            areSubsequent_loop ft nt (num + 1) (c + 1) (s + (int num + 1))"
          using d by (simp add: areSubsequent_loop_step [OF True])
        have e: "list_ex (\<lambda>i. nt ! i \<and> \<not> ft ! i) [num..<length ft] =
            list_ex (\<lambda>i. nt ! i \<and> \<not> ft ! i) [num + 1..<length ft]"
          using d by (subst up) simp
        have f: "filter (\<lambda>i. ft ! i \<and> \<not> nt ! i) [num..<length ft] =
            num # filter (\<lambda>i. ft ! i \<and> \<not> nt ! i) [num + 1..<length ft]"
          using d by (subst up) simp
        show ?thesis
          unfolding a "1.IH"(1) [OF True nu d] e f by simp
      next
        case nd: False
        have same: "ft ! num = nt ! num" using nu nd by blast
        have a: "areSubsequent_loop ft nt num c s = areSubsequent_loop ft nt (num + 1) c s"
          using same by (simp add: areSubsequent_loop_step [OF True])
        have e: "list_ex (\<lambda>i. nt ! i \<and> \<not> ft ! i) [num..<length ft] =
            list_ex (\<lambda>i. nt ! i \<and> \<not> ft ! i) [num + 1..<length ft]"
          using same by (subst up) simp
        have f: "filter (\<lambda>i. ft ! i \<and> \<not> nt ! i) [num..<length ft] =
            filter (\<lambda>i. ft ! i \<and> \<not> nt ! i) [num + 1..<length ft]"
          using same by (subst up) simp
        show ?thesis
          unfolding a "1.IH"(2) [OF True nu nd] e f by simp
      qed
    qed
  qed
qed

lemma diff_loop_eq:
  "diff_loop ft nt num = map (\<lambda>i. int i + 1) (filter (\<lambda>i. ft ! i \<noteq> nt ! i) [num..<length ft])"
proof (induction ft nt num rule: diff_loop.induct)
  case (1 ft nt num)
  show ?case
  proof (cases "num < length ft")
    case False
    then show ?thesis by (subst diff_loop.simps) simp
  next
    case True
    have up: "[num..<length ft] = num # [Suc num..<length ft]"
      using True by (simp add: upt_conv_Cons)
    have "diff_loop ft nt num =
        (if ft ! num = nt ! num then [] else [int num + 1]) @ diff_loop ft nt (num + 1)"
      using True by (subst diff_loop.simps) simp
    then show ?thesis
      using "1.IH" [OF True] by (simp add: up)
  qed
qed

lemma filter_upt_set:
  "set (filter P [0..<n]) = {i. i < n \<and> P i}"
  by auto

lemma length_filter_upt:
  "length (filter P [0..<n]) = card {i. i < n \<and> P i}"
proof -
  have "length (filter P [0..<n]) = card ({x. P x} \<inter> set [0..<n])"
    by (rule distinct_length_filter) simp
  also have "{x. P x} \<inter> set [0..<n] = {i. i < n \<and> P i}" by auto
  finally show ?thesis .
qed

lemma sum_list_filter_upt:
  "sum_list (map f (filter P [0..<n])) = sum f {i. i < n \<and> P i}"
proof -
  have "distinct (filter P [0..<n])" by simp
  then have "sum_list (map f (filter P [0..<n])) = sum f (set (filter P [0..<n]))"
    by (rule sum_list_distinct_conv_sum_set)
  then show ?thesis by (simp only: filter_upt_set)
qed

lemma areSubsequent_iff:
  "CrossoutState_areSubsequent P Q \<longleftrightarrow>
     MAX_SUM P = MAX_SUM Q \<and> length (tray P) = length (tray Q) \<and> ourTurn P \<noteq> ourTurn Q \<and>
     (\<forall>i < length (tray P). tray Q ! i \<longrightarrow> tray P ! i) \<and>
     1 \<le> card {i. i < length (tray P) \<and> tray P ! i \<and> \<not> tray Q ! i} \<and>
     card {i. i < length (tray P) \<and> tray P ! i \<and> \<not> tray Q ! i} \<le> 2 \<and>
     (\<Sum>i \<in> {i. i < length (tray P) \<and> tray P ! i \<and> \<not> tray Q ! i}. int i + 1) \<le> MAX_SUM P"
proof -
  let ?n = "length (tray P)"
  have ex: "list_ex (\<lambda>i. tray Q ! i \<and> \<not> tray P ! i) [0..<?n] =
      (\<not> (\<forall>i < ?n. tray Q ! i \<longrightarrow> tray P ! i))"
    by (auto simp: list_ex_iff)
  show ?thesis
    unfolding CrossoutState_areSubsequent_def areSubsequent_loop_eq ex
      length_filter_upt sum_list_filter_upt MIN_TAKEN_def MAX_TAKEN_def
    by auto
qed

lemma areSubsequent_removed_one:
  assumes "i0 < length (tray P)" and "tray P ! i0" and "int i0 + 1 \<le> MAX_SUM P"
    and "MAX_SUM S = MAX_SUM P" and "ourTurn S = (\<not> ourTurn P)"
    and "tray S = (tray P)[i0 := False]"
  shows "CrossoutState_areSubsequent P S"
proof -
  have D: "{i. i < length (tray P) \<and> tray P ! i \<and> \<not> tray S ! i} = {i0}"
    using assms(1,2) by (auto simp: assms(6) nth_list_update)
  have U: "\<forall>i < length (tray P). tray S ! i \<longrightarrow> tray P ! i"
    using assms(1) by (auto simp: assms(6) nth_list_update split: if_splits)
  show ?thesis
    unfolding areSubsequent_iff D using U assms by simp
qed

lemma areSubsequent_removed_two:
  assumes "i0 < length (tray P)" and "tray P ! i0"
    and "j0 < length (tray P)" and "tray P ! j0" and "i0 \<noteq> j0"
    and "int i0 + 1 + (int j0 + 1) \<le> MAX_SUM P"
    and "MAX_SUM S = MAX_SUM P" and "ourTurn S = (\<not> ourTurn P)"
    and "tray S = (tray P)[i0 := False, j0 := False]"
  shows "CrossoutState_areSubsequent P S"
proof -
  have D: "{i. i < length (tray P) \<and> tray P ! i \<and> \<not> tray S ! i} = {i0, j0}"
    using assms(1-4) by (auto simp: assms(9) nth_list_update)
  have U: "\<forall>i < length (tray P). tray S ! i \<longrightarrow> tray P ! i"
    using assms(1,3) by (auto simp: assms(9) nth_list_update split: if_splits)
  have c: "card {i0, j0} = 2" using assms(5) by simp
  have s: "(\<Sum>i \<in> {i0, j0}. int i + 1) = int i0 + 1 + (int j0 + 1)"
    using assms(5) by simp
  show ?thesis
    unfolding areSubsequent_iff D c s using U assms by simp
qed

lemma legal_move_subsequent:
  assumes "1 \<le> a" and "a \<le> int (length (tray P))" and "tray P ! nat (a - 1)"
    and "MAX_SUM S = MAX_SUM P" and "ourTurn S = (\<not> ourTurn P)"
    and "(a \<le> MAX_SUM P \<and> tray S = (tray P)[nat (a - 1) := False]) \<or>
         (\<exists>b'. 1 \<le> b' \<and> b' \<le> int (length (tray P)) \<and> tray P ! nat (b' - 1) \<and>
               a \<noteq> b' \<and> a + b' \<le> MAX_SUM P \<and>
               tray S = (tray P)[nat (a - 1) := False, nat (b' - 1) := False])"
  shows "CrossoutState_areSubsequent P S"
proof -
  have la: "nat (a - 1) < length (tray P)" using assms(1,2) by auto
  from assms(6) show ?thesis
  proof
    assume one: "a \<le> MAX_SUM P \<and> tray S = (tray P)[nat (a - 1) := False]"
    show ?thesis
      by (rule areSubsequent_removed_one [OF la assms(3)]) (use assms one in auto)
  next
    assume "\<exists>b'. 1 \<le> b' \<and> b' \<le> int (length (tray P)) \<and> tray P ! nat (b' - 1) \<and>
               a \<noteq> b' \<and> a + b' \<le> MAX_SUM P \<and>
               tray S = (tray P)[nat (a - 1) := False, nat (b' - 1) := False]"
    then obtain b' where p: "1 \<le> b'" "b' \<le> int (length (tray P))" "tray P ! nat (b' - 1)"
      "a \<noteq> b'" "a + b' \<le> MAX_SUM P"
      "tray S = (tray P)[nat (a - 1) := False, nat (b' - 1) := False]"
      by blast
    have lb: "nat (b' - 1) < length (tray P)" using p by auto
    have ne: "nat (a - 1) \<noteq> nat (b' - 1)" using p assms(1) by auto
    show ?thesis
      by (rule areSubsequent_removed_two [OF la assms(3) lb p(3) ne]) (use assms p in auto)
  qed
qed

lemma diff_loop_removed:
  assumes "\<forall>i < length ft. nt ! i \<longrightarrow> ft ! i"
  shows "diff_loop ft nt 0 =
     map (\<lambda>i. int i + 1) (filter (\<lambda>i. ft ! i \<and> \<not> nt ! i) [0..<length ft])"
proof -
  have "filter (\<lambda>i. ft ! i \<noteq> nt ! i) [0..<length ft] =
      filter (\<lambda>i. ft ! i \<and> \<not> nt ! i) [0..<length ft]"
    by (rule filter_cong) (use assms in auto)
  then show ?thesis by (simp add: diff_loop_eq)
qed

lemma tray_after_one:
  assumes "length ft = length nt"
    and "\<forall>i < length ft. nt ! i \<longrightarrow> ft ! i"
    and "{i. i < length ft \<and> ft ! i \<and> \<not> nt ! i} = {x}"
  shows "nt = ft[x := False]"
proof (rule nth_equalityI)
  show "length nt = length (ft[x := False])" using assms(1) by simp
next
  fix i assume "i < length nt"
  then have i: "i < length ft" using assms(1) by simp
  have x: "x < length ft \<and> ft ! x \<and> \<not> nt ! x" using assms(3) by blast
  show "nt ! i = ft[x := False] ! i"
  proof (cases "i = x")
    case True
    then show ?thesis using x by simp
  next
    case False
    then have "\<not> (ft ! i \<and> \<not> nt ! i)" using assms(3) i by blast
    then show ?thesis using assms(2) i False by auto
  qed
qed

lemma tray_after_two:
  assumes "length ft = length nt"
    and "\<forall>i < length ft. nt ! i \<longrightarrow> ft ! i"
    and "{i. i < length ft \<and> ft ! i \<and> \<not> nt ! i} = {x, y}"
  shows "nt = ft[x := False, y := False]"
proof (rule nth_equalityI)
  show "length nt = length (ft[x := False, y := False])" using assms(1) by simp
next
  fix i assume "i < length nt"
  then have i: "i < length ft" using assms(1) by simp
  have x: "x < length ft \<and> ft ! x \<and> \<not> nt ! x" using assms(3) by blast
  have y: "y < length ft \<and> ft ! y \<and> \<not> nt ! y" using assms(3) by blast
  show "nt ! i = ft[x := False, y := False] ! i"
  proof (cases "i = x \<or> i = y")
    case True
    then show ?thesis using x y by (auto simp: nth_list_update)
  next
    case False
    then have "\<not> (ft ! i \<and> \<not> nt ! i)" using assms(3) i by blast
    then show ?thesis using assms(2) i False by auto
  qed
qed

lemma list_of_length_one:
  assumes "length xs = 1"
  obtains x where "xs = [x]"
  using assms by (cases xs) auto

lemma list_of_length_two:
  assumes "length xs = 2"
  obtains x y where "xs = [x, y]"
proof -
  from assms obtain x ys where xs: "xs = x # ys" and "length ys = 1"
    by (cases xs) auto
  then obtain y where "ys = [y]" by (cases ys) auto
  with xs show ?thesis using that by simp
qed

lemma subsequent_diff_cases:
  assumes "CrossoutState_areSubsequent P Q"
  obtains
    (one) x where "{i. i < length (tray P) \<and> tray P ! i \<and> \<not> tray Q ! i} = {x}"
      and "diff_loop (tray P) (tray Q) 0 = [int x + 1]"
  | (two) x y where "{i. i < length (tray P) \<and> tray P ! i \<and> \<not> tray Q ! i} = {x, y}"
      and "x < y" and "diff_loop (tray P) (tray Q) 0 = [int x + 1, int y + 1]"
proof -
  let ?D = "{i. i < length (tray P) \<and> tray P ! i \<and> \<not> tray Q ! i}"
  let ?xs = "filter (\<lambda>i. tray P ! i \<and> \<not> tray Q ! i) [0..<length (tray P)]"
  from assms [unfolded areSubsequent_iff]
  have U: "\<forall>i < length (tray P). tray Q ! i \<longrightarrow> tray P ! i"
    and c: "1 \<le> card ?D" "card ?D \<le> 2"
    by blast+
  have d: "diff_loop (tray P) (tray Q) 0 = map (\<lambda>i. int i + 1) ?xs"
    by (rule diff_loop_removed [OF U])
  have set_xs: "set ?xs = ?D" by (rule filter_upt_set)
  have len_xs: "length ?xs = card ?D" by (rule length_filter_upt)
  have sorted_xs: "sorted_wrt (<) ?xs"
    by (rule sorted_wrt_filter) (rule sorted_wrt_upt)
  from c consider "length ?xs = 1" | "length ?xs = 2"
    unfolding len_xs by linarith
  then show thesis
  proof cases
    case 1
    then obtain x where xs: "?xs = [x]" by (rule list_of_length_one)
    with set_xs have "?D = {x}" by simp
    moreover have "diff_loop (tray P) (tray Q) 0 = [int x + 1]"
      using d xs by simp
    ultimately show thesis by (rule one)
  next
    case 2
    then obtain x y where xs: "?xs = [x, y]" by (rule list_of_length_two)
    with set_xs have "?D = {x, y}" by simp
    moreover have "x < y" using sorted_xs xs by simp
    moreover have "diff_loop (tray P) (tray Q) 0 = [int x + 1, int y + 1]"
      using d xs by simp
    ultimately show thesis by (rule two)
  qed
qed

lemma removed_number:
  assumes "x \<in> {i. i < length (tray P) \<and> tray P ! i \<and> \<not> tray Q ! i}"
  shows "1 \<le> int x + 1 \<and> int x + 1 \<le> int (length (tray P)) \<and>
         tray P ! nat (int x + 1 - 1) \<and> \<not> tray Q ! nat (int x + 1 - 1)"
  using assms by simp

lemma subsequent_card:
  assumes "\<forall>i < length ft. nt ! i \<longrightarrow> ft ! i" and "length ft = length nt"
  shows "card {i. i < length nt \<and> \<not> nt ! i} =
           card {i. i < length ft \<and> \<not> ft ! i} +
           card {i. i < length ft \<and> ft ! i \<and> \<not> nt ! i}"
proof -
  have "{i. i < length nt \<and> \<not> nt ! i} =
      {i. i < length ft \<and> \<not> ft ! i} \<union> {i. i < length ft \<and> ft ! i \<and> \<not> nt ! i}"
    using assms by auto
  moreover have "{i. i < length ft \<and> \<not> ft ! i} \<inter> {i. i < length ft \<and> ft ! i \<and> \<not> nt ! i} = {}"
    by auto
  ultimately show ?thesis
    by (simp add: card_Un_disjoint)
qed

lemma constructed_subsequent_two:
  assumes "constructed P" and "constructed Q" and "CrossoutState_areSubsequent P Q"
  shows "card {i. i < length (tray P) \<and> tray P ! i \<and> \<not> tray Q ! i} = 2"
proof -
  let ?D = "{i. i < length (tray P) \<and> tray P ! i \<and> \<not> tray Q ! i}"
  from assms(3) [unfolded areSubsequent_iff]
  have len: "length (tray P) = length (tray Q)"
    and U: "\<forall>i < length (tray P). tray Q ! i \<longrightarrow> tray P ! i"
    and c: "1 \<le> card ?D" "card ?D \<le> 2"
    by blast+
  have "even (card ?D)"
    using constructed_even [OF assms(1)] constructed_even [OF assms(2)]
    unfolding subsequent_card [OF U len] by simp
  with c show ?thesis
    by (cases "card ?D = 1") auto
qed

subsection \<open>The build without assertions\<close>

text \<open>
  Without assertions the advancing constructor returns a position for every number
  within the tray, alone or with a second number within the tray, whether present or
  not; the hash it caches is the one the build with assertions computes.
\<close>

lemma cacheHash_NDEBUG_fields [simp]:
  "MAX_SUM (cacheHash_NDEBUG s) = MAX_SUM s"
  "tray (cacheHash_NDEBUG s) = tray s"
  "ourTurn (cacheHash_NDEBUG s) = ourTurn s"
  by (simp_all add: cacheHash_NDEBUG_def Let_def)

lemma cacheHash_NDEBUG_same: "cacheHash s = Inr (cacheHash_NDEBUG s)"
  by (simp add: cacheHash_Inr cacheHash_NDEBUG_def Let_def)

lemma advance_NDEBUG_single:
  assumes "1 \<le> a" and "a \<le> int (length (tray s))" and "b \<le> 0"
  shows "CrossoutState_advance_NDEBUG s a b =
     Inr (cacheHash_NDEBUG \<lparr>MAX_SUM = MAX_SUM s, tray = (tray s)[nat (a - 1) := False],
                             ourTurn = (\<not> ourTurn s), hashCode = 0\<rparr>)"
  using assms by (simp add: CrossoutState_advance_NDEBUG_def Let_def)

lemma advance_NDEBUG_pair:
  assumes "1 \<le> a" and "a \<le> int (length (tray s))"
    and "1 \<le> b" and "b \<le> int (length (tray s))"
  shows "CrossoutState_advance_NDEBUG s a b =
     Inr (cacheHash_NDEBUG \<lparr>MAX_SUM = MAX_SUM s,
                             tray = (tray s)[nat (a - 1) := False, nat (b - 1) := False],
                             ourTurn = (\<not> ourTurn s), hashCode = 0\<rparr>)"
  using assms by (simp add: CrossoutState_advance_NDEBUG_def Let_def)

lemma construct_all_NDEBUG_member:
  "construct_all_NDEBUG s calls = Inr possibilities \<Longrightarrow> p \<in> set possibilities \<Longrightarrow>
   \<exists>a b. (a, b) \<in> set calls \<and> CrossoutState_advance_NDEBUG s a b = Inr p"
proof (induction calls arbitrary: possibilities)
  case Nil
  then show ?case by simp
next
  case (Cons call calls)
  obtain a b where call: "call = (a, b)" by (cases call)
  from Cons.prems(1) obtain q rest where
    q: "CrossoutState_advance_NDEBUG s a b = Inr q" and
    rest: "construct_all_NDEBUG s calls = Inr rest" and
    ps: "possibilities = q # rest"
    by (auto simp: call split: sum.splits)
  show ?case
  proof (cases "p = q")
    case True
    then show ?thesis using q call by auto
  next
    case False
    then have "p \<in> set rest" using Cons.prems(2) ps by simp
    from Cons.IH [OF rest this] show ?thesis by auto
  qed
qed


subsection \<open>The loops of successors\<close>

text \<open>
  Which constructor calls \<^verbatim>\<open>successors\<close> makes: one with the default second argument
  for every present number within the size of the tray and the bound, and one for every
  pair of present numbers whose sum is within the bound, in both orders and the pair of
  a number with itself included.  The first call is always one without a second number.
  With assertions enabled that call aborts, so \<^verbatim>\<open>successors\<close> returns (the empty list)
  only when the loops make no call.  Without assertions every call returns a position,
  the receiver with one or two present numbers crossed out.
\<close>

lemma successors_inner_member:
  "(a, b) \<in> set (successors_inner s first second) \<Longrightarrow>
   a = first \<and> second \<le> b \<and> b \<le> int (length (tray s)) \<and> first + b \<le> MAX_SUM s \<and>
   tray s ! nat (b - 1)"
proof (induction s first second rule: successors_inner.induct)
  case (1 s first second)
  show ?case
  proof (cases "second \<le> int (length (tray s)) \<and> first + second \<le> MAX_SUM s")
    case False
    then have "successors_inner s first second = []"
      by (simp only: successors_inner.simps [of s first second] if_False)
    then show ?thesis using "1.prems" by simp
  next
    case True
    have unfold: "successors_inner s first second =
        (if tray s ! nat (second - 1) then [(first, second)] else [])
        @ successors_inner s first (second + 1)"
      using True by (simp only: successors_inner.simps [of s first second] if_True simp_thms)
    from "1.prems" consider
        (here) "tray s ! nat (second - 1)" "(a, b) = (first, second)"
      | (later) "(a, b) \<in> set (successors_inner s first (second + 1))"
      unfolding unfold by (auto split: if_splits)
    then show ?thesis
    proof cases
      case here
      then show ?thesis using True by simp
    next
      case later
      from "1.IH" [OF True later] show ?thesis by simp
    qed
  qed
qed

lemma successors_outer_member:
  "(a, b) \<in> set (successors_outer s first) \<Longrightarrow>
   first \<le> a \<and> a \<le> int (length (tray s)) \<and> a \<le> MAX_SUM s \<and> tray s ! nat (a - 1) \<and>
   (b = secondTheft_default \<or>
    (1 \<le> b \<and> b \<le> int (length (tray s)) \<and> a + b \<le> MAX_SUM s \<and> tray s ! nat (b - 1)))"
proof (induction s first rule: successors_outer.induct)
  case (1 s first)
  show ?case
  proof (cases "first \<le> int (length (tray s)) \<and> first \<le> MAX_SUM s")
    case False
    then have "successors_outer s first = []"
      by (simp only: successors_outer.simps [of s first] if_False)
    then show ?thesis using "1.prems" by simp
  next
    case True
    have unfold: "successors_outer s first =
        (if tray s ! nat (first - 1)
         then (first, secondTheft_default) # successors_inner s first 1 else [])
        @ successors_outer s (first + 1)"
      using True by (simp only: successors_outer.simps [of s first] if_True simp_thms)
    from "1.prems" consider
        (single) "tray s ! nat (first - 1)" "(a, b) = (first, secondTheft_default)"
      | (pair) "tray s ! nat (first - 1)" "(a, b) \<in> set (successors_inner s first 1)"
      | (later) "(a, b) \<in> set (successors_outer s (first + 1))"
      unfolding unfold by (auto split: if_splits)
    then show ?thesis
    proof cases
      case single
      then show ?thesis using True by simp
    next
      case pair
      from successors_inner_member [OF pair(2)] pair(1) True show ?thesis by simp
    next
      case later
      from "1.IH" [OF True later] show ?thesis by simp
    qed
  qed
qed

lemma successors_inner_complete:
  "second \<le> b \<Longrightarrow> b \<le> int (length (tray s)) \<Longrightarrow> first + b \<le> MAX_SUM s \<Longrightarrow>
   tray s ! nat (b - 1) \<Longrightarrow> (first, b) \<in> set (successors_inner s first second)"
proof (induction s first second rule: successors_inner.induct)
  case (1 s first second)
  have cond: "second \<le> int (length (tray s)) \<and> first + second \<le> MAX_SUM s"
    using "1.prems" by simp
  have unfold: "successors_inner s first second =
      (if tray s ! nat (second - 1) then [(first, second)] else [])
      @ successors_inner s first (second + 1)"
    using cond by (simp only: successors_inner.simps [of s first second] if_True simp_thms)
  show ?case
  proof (cases "second = b")
    case True
    then show ?thesis using "1.prems"(4) unfolding unfold by simp
  next
    case False
    then have "second + 1 \<le> b" using "1.prems"(1) by simp
    from "1.IH" [OF cond this "1.prems"(2,3,4)] show ?thesis
      unfolding unfold by simp
  qed
qed

lemma successors_outer_complete:
  "first \<le> a \<Longrightarrow> a \<le> int (length (tray s)) \<Longrightarrow> a \<le> MAX_SUM s \<Longrightarrow>
   tray s ! nat (a - 1) \<Longrightarrow>
   (a, secondTheft_default) \<in> set (successors_outer s first) \<and>
   set (successors_inner s a 1) \<subseteq> set (successors_outer s first)"
proof (induction s first rule: successors_outer.induct)
  case (1 s first)
  have cond: "first \<le> int (length (tray s)) \<and> first \<le> MAX_SUM s"
    using "1.prems" by simp
  have unfold: "successors_outer s first =
      (if tray s ! nat (first - 1)
       then (first, secondTheft_default) # successors_inner s first 1 else [])
      @ successors_outer s (first + 1)"
    using cond by (simp only: successors_outer.simps [of s first] if_True simp_thms)
  show ?case
  proof (cases "first = a")
    case True
    then show ?thesis using "1.prems"(4) unfolding unfold by auto
  next
    case False
    then have "first + 1 \<le> a" using "1.prems"(1) by simp
    from "1.IH" [OF cond this "1.prems"(2,3,4)] show ?thesis
      unfolding unfold by auto
  qed
qed

lemma successors_calls_pair:
  assumes "1 \<le> a" and "a \<le> int (length (tray s))" and "tray s ! nat (a - 1)"
    and "1 \<le> b" and "b \<le> int (length (tray s))" and "tray s ! nat (b - 1)"
    and "a + b \<le> MAX_SUM s"
  shows "(a, b) \<in> set (successors_calls s)"
proof -
  have "a \<le> MAX_SUM s" using assms(4,7) by simp
  from successors_outer_complete [OF assms(1,2) this assms(3)]
  have "set (successors_inner s a 1) \<subseteq> set (successors_calls s)"
    by (simp add: successors_calls_def)
  moreover have "(a, b) \<in> set (successors_inner s a 1)"
    by (rule successors_inner_complete [OF assms(4,5,7,6)])
  ultimately show ?thesis by blast
qed

lemma successors_outer_head:
  "successors_outer s first \<noteq> [] \<Longrightarrow>
   \<exists>a calls. successors_outer s first = (a, secondTheft_default) # calls"
proof (induction s first rule: successors_outer.induct)
  case (1 s first)
  show ?case
  proof (cases "first \<le> int (length (tray s)) \<and> first \<le> MAX_SUM s")
    case False
    then have "successors_outer s first = []"
      by (simp only: successors_outer.simps [of s first] if_False)
    with "1.prems" show ?thesis by simp
  next
    case True
    have unfold: "successors_outer s first =
        (if tray s ! nat (first - 1)
         then (first, secondTheft_default) # successors_inner s first 1 else [])
        @ successors_outer s (first + 1)"
      using True by (simp only: successors_outer.simps [of s first] if_True simp_thms)
    show ?thesis
    proof (cases "tray s ! nat (first - 1)")
      case present: True
      then show ?thesis unfolding unfold by simp
    next
      case absent: False
      then have eq: "successors_outer s first = successors_outer s (first + 1)"
        unfolding unfold by simp
      with "1.prems" have "successors_outer s (first + 1) \<noteq> []" by simp
      from "1.IH" [OF True this] show ?thesis unfolding eq .
    qed
  qed
qed

lemma successors_asserts_on:
  "CrossoutState_successors s =
     (if successors_calls s = [] then Inr [] else Inl AssertionFailed)"
proof (cases "successors_calls s = []")
  case True
  then show ?thesis by (simp add: CrossoutState_successors_def)
next
  case False
  then obtain a calls where c: "successors_calls s = (a, secondTheft_default) # calls"
    using successors_outer_head [of s 1] by (auto simp: successors_calls_def)
  have "CrossoutState_advance s a secondTheft_default = Inl AssertionFailed"
    by (rule advance_single_aborts) (simp add: secondTheft_default_def)
  then show ?thesis
    using False by (simp add: CrossoutState_successors_def c)
qed

lemma successors_call_NDEBUG:
  assumes "(a, b) \<in> set (successors_calls P)"
  shows "\<exists>S. CrossoutState_advance_NDEBUG P a b = Inr S \<and>
           1 \<le> a \<and> a \<le> int (length (tray P)) \<and> tray P ! nat (a - 1) \<and>
           MAX_SUM S = MAX_SUM P \<and> ourTurn S = (\<not> ourTurn P) \<and>
           ((a \<le> MAX_SUM P \<and> tray S = (tray P)[nat (a - 1) := False]) \<or>
            (\<exists>b'. 1 \<le> b' \<and> b' \<le> int (length (tray P)) \<and> tray P ! nat (b' - 1) \<and>
                  a \<noteq> b' \<and> a + b' \<le> MAX_SUM P \<and>
                  tray S = (tray P)[nat (a - 1) := False, nat (b' - 1) := False]))"
proof -
  from successors_outer_member [OF assms [unfolded successors_calls_def]]
  have a: "1 \<le> a" "a \<le> int (length (tray P))" "a \<le> MAX_SUM P" "tray P ! nat (a - 1)"
    and b: "b = secondTheft_default \<or>
      (1 \<le> b \<and> b \<le> int (length (tray P)) \<and> a + b \<le> MAX_SUM P \<and> tray P ! nat (b - 1))"
    by simp_all
  from b show ?thesis
  proof
    assume "b = secondTheft_default"
    then have "b \<le> 0" by (simp add: secondTheft_default_def)
    from advance_NDEBUG_single [OF a(1) a(2) this] a show ?thesis by simp
  next
    assume p: "1 \<le> b \<and> b \<le> int (length (tray P)) \<and> a + b \<le> MAX_SUM P \<and> tray P ! nat (b - 1)"
    then have adv: "CrossoutState_advance_NDEBUG P a b =
        Inr (cacheHash_NDEBUG \<lparr>MAX_SUM = MAX_SUM P,
                                tray = (tray P)[nat (a - 1) := False, nat (b - 1) := False],
                                ourTurn = (\<not> ourTurn P), hashCode = 0\<rparr>)"
      using advance_NDEBUG_pair [OF a(1) a(2)] by simp
    show ?thesis
    proof (cases "a = b")
      case True
      then show ?thesis using adv a by simp
    next
      case False
      then show ?thesis using adv a p by auto
    qed
  qed
qed


subsection \<open>From diff back to the position\<close>

text \<open>
  The advancing constructor applied to the numbers in which two subsequent positions
  differ rebuilds the bound, the tray and the turn of the second.
\<close>

lemma roundtrip_two:
  assumes sub: "CrossoutState_areSubsequent P Q"
    and D: "{i. i < length (tray P) \<and> tray P ! i \<and> \<not> tray Q ! i} = {x, y}"
    and ne: "x \<noteq> y"
  shows "\<exists>R. CrossoutState_advance P (int x + 1) (int y + 1) = Inr R \<and>
             MAX_SUM R = MAX_SUM Q \<and> tray R = tray Q \<and> ourTurn R = ourTurn Q \<and>
             CrossoutState_operator_eq R Q = Inr True"
proof -
  from sub [unfolded areSubsequent_iff]
  have M: "MAX_SUM P = MAX_SUM Q" and len: "length (tray P) = length (tray Q)"
    and turn: "ourTurn P \<noteq> ourTurn Q"
    and U: "\<forall>i < length (tray P). tray Q ! i \<longrightarrow> tray P ! i"
    by blast+
  have x: "x < length (tray P) \<and> tray P ! x \<and> \<not> tray Q ! x" using D by blast
  have y: "y < length (tray P) \<and> tray P ! y \<and> \<not> tray Q ! y" using D by blast
  have t: "tray Q = (tray P)[x := False, y := False]"
    by (rule tray_after_two [OF len U D])
  have adv: "CrossoutState_advance P (int x + 1) (int y + 1) =
      cacheHash \<lparr>MAX_SUM = MAX_SUM P,
                 tray = (tray P)[nat (int x + 1 - 1) := False, nat (int y + 1 - 1) := False],
                 ourTurn = (\<not> ourTurn P), hashCode = 0\<rparr>"
    by (rule advance_pair) (use x y ne in simp_all)
  obtain R where R: "cacheHash \<lparr>MAX_SUM = MAX_SUM P,
                 tray = (tray P)[nat (int x + 1 - 1) := False, nat (int y + 1 - 1) := False],
                 ourTurn = (\<not> ourTurn P), hashCode = 0\<rparr> = Inr R"
    by (simp add: cacheHash_Inr)
  from cacheHash_fields [OF R]
  have f: "MAX_SUM R = MAX_SUM Q" "tray R = tray Q" "ourTurn R = ourTurn Q"
    using M t turn by simp_all
  have "length (tray R) = length (tray Q)" using f(2) by simp
  from CrossoutState_operator_eq_same_length [OF this]
  have "CrossoutState_operator_eq R Q = Inr True"
    using f by simp
  then show ?thesis using adv R f by simp
qed

lemma roundtrip_two_NDEBUG:
  assumes sub: "CrossoutState_areSubsequent P Q"
    and D: "{i. i < length (tray P) \<and> tray P ! i \<and> \<not> tray Q ! i} = {x, y}"
  shows "\<exists>R. CrossoutState_advance_NDEBUG P (int x + 1) (int y + 1) = Inr R \<and>
             MAX_SUM R = MAX_SUM Q \<and> tray R = tray Q \<and> ourTurn R = ourTurn Q \<and>
             CrossoutState_operator_eq R Q = Inr True"
proof -
  from sub [unfolded areSubsequent_iff]
  have M: "MAX_SUM P = MAX_SUM Q" and len: "length (tray P) = length (tray Q)"
    and turn: "ourTurn P \<noteq> ourTurn Q"
    and U: "\<forall>i < length (tray P). tray Q ! i \<longrightarrow> tray P ! i"
    by blast+
  have x: "x < length (tray P)" and y: "y < length (tray P)" using D by blast+
  have t: "tray Q = (tray P)[x := False, y := False]"
    by (rule tray_after_two [OF len U D])
  let ?R = "cacheHash_NDEBUG \<lparr>MAX_SUM = MAX_SUM P,
                 tray = (tray P)[nat (int x + 1 - 1) := False, nat (int y + 1 - 1) := False],
                 ourTurn = (\<not> ourTurn P), hashCode = 0\<rparr>"
  have adv: "CrossoutState_advance_NDEBUG P (int x + 1) (int y + 1) = Inr ?R"
    by (rule advance_NDEBUG_pair) (use x y in simp_all)
  have f: "MAX_SUM ?R = MAX_SUM Q" "tray ?R = tray Q" "ourTurn ?R = ourTurn Q"
    using M t turn by simp_all
  have "length (tray ?R) = length (tray Q)" using f(2) by simp
  from CrossoutState_operator_eq_same_length [OF this]
  have "CrossoutState_operator_eq ?R Q = Inr True"
    using f by simp
  then show ?thesis using adv f by blast
qed

lemma roundtrip_one_NDEBUG:
  assumes sub: "CrossoutState_areSubsequent P Q"
    and D: "{i. i < length (tray P) \<and> tray P ! i \<and> \<not> tray Q ! i} = {x}"
  shows "\<exists>R. CrossoutState_advance_NDEBUG P (int x + 1) secondTheft_default = Inr R \<and>
             MAX_SUM R = MAX_SUM Q \<and> tray R = tray Q \<and> ourTurn R = ourTurn Q \<and>
             CrossoutState_operator_eq R Q = Inr True"
proof -
  from sub [unfolded areSubsequent_iff]
  have M: "MAX_SUM P = MAX_SUM Q" and len: "length (tray P) = length (tray Q)"
    and turn: "ourTurn P \<noteq> ourTurn Q"
    and U: "\<forall>i < length (tray P). tray Q ! i \<longrightarrow> tray P ! i"
    by blast+
  have x: "x < length (tray P)" using D by blast
  have t: "tray Q = (tray P)[x := False]"
    by (rule tray_after_one [OF len U D])
  let ?R = "cacheHash_NDEBUG \<lparr>MAX_SUM = MAX_SUM P,
                 tray = (tray P)[nat (int x + 1 - 1) := False],
                 ourTurn = (\<not> ourTurn P), hashCode = 0\<rparr>"
  have adv: "CrossoutState_advance_NDEBUG P (int x + 1) secondTheft_default = Inr ?R"
    by (rule advance_NDEBUG_single) (use x in \<open>simp_all add: secondTheft_default_def\<close>)
  have f: "MAX_SUM ?R = MAX_SUM Q" "tray ?R = tray Q" "ourTurn ?R = ourTurn Q"
    using M t turn by simp_all
  have "length (tray ?R) = length (tray Q)" using f(2) by simp
  from CrossoutState_operator_eq_same_length [OF this]
  have "CrossoutState_operator_eq ?R Q = Inr True"
    using f by simp
  then show ?thesis using adv f by blast
qed

section \<open>The claims\<close>

subsection \<open>C1: successors produces only legal moves\<close>



subsection \<open>C2: gameOver\<close>

text \<open>
  C2 says that \<^verbatim>\<open>gameOver\<close> is true if and only if no legal move remains, that is, every
  entry of the tray is crossed out.  The loop of \<^verbatim>\<open>gameOver\<close> stops at \<^verbatim>\<open>MAX_TAKEN\<close>,
  so it looks at the numbers 1 and 2 only.  After 1 and 2 are removed from the game of
  the numbers 1..3 with bound 3, \<^verbatim>\<open>gameOver\<close> is true and \<^verbatim>\<open>scoreGame\<close> declares a
  victory, while 3 is still present and within the bound, and \<^verbatim>\<open>areSubsequent\<close> accepts
  its removal as a move.
\<close>

theorem C2_gameOver_with_move_left:
  "CrossoutState_new 3 3 True = Inr
      \<lparr>MAX_SUM = 3, tray = [True, True, True], ourTurn = True, hashCode = 15\<rparr> \<and>
   CrossoutState_advance
       \<lparr>MAX_SUM = 3, tray = [True, True, True], ourTurn = True, hashCode = 15\<rparr>
       1 2 = Inr
       \<lparr>MAX_SUM = 3, tray = [False, False, True], ourTurn = False, hashCode = 4\<rparr>
       \<and>
   CrossoutState_gameOver
       \<lparr>MAX_SUM = 3, tray = [False, False, True], ourTurn = False, hashCode = 4\<rparr>
       = True \<and>
   CrossoutState_scoreGame
       \<lparr>MAX_SUM = 3, tray = [False, False, True], ourTurn = False, hashCode = 4\<rparr>
       = VICTORY \<and>
   tray
       \<lparr>MAX_SUM = 3, tray = [False, False, True], ourTurn = False, hashCode = 4\<rparr>
       ! 2 = True \<and>
   3 \<le> MAX_SUM
       \<lparr>MAX_SUM = 3, tray = [False, False, True], ourTurn = False, hashCode = 4\<rparr>
       \<and>
   CrossoutState_areSubsequent
       \<lparr>MAX_SUM = 3, tray = [False, False, True], ourTurn = False, hashCode = 4\<rparr>
       \<lparr>MAX_SUM = 3, tray = [False, False, False], ourTurn = True, hashCode = 8\<rparr>
       = True"
  by code_simp

subsection \<open>C3: what successors enumerates\<close>

text \<open>
  C3 says that \<^verbatim>\<open>successors\<close> returns every sole removal within the bound and every
  pair of distinct present numbers within the bound, no unordered pair twice.  In the
  game of the numbers 1..4 with bound 3 the loops ask for (1, 2) and for (2, 1), which
  construct the same position, and for (1, 1), which the constructor rejects.  With
  assertions enabled \<^verbatim>\<open>successors\<close> aborts (in its first call, at the assertion on
  \<^verbatim>\<open>secondTheft\<close>) and returns no list at all, so the joint removal of 1 and 2 is not
  enumerated.
\<close>

theorem C3_successors_pairs:
  "successors_calls
      \<lparr>MAX_SUM = 3, tray = [True, True, True, True], ourTurn = True, hashCode = 31\<rparr> =
     [(1, secondTheft_default), (1, 1), (1, 2), (2, secondTheft_default), (2, 1),
      (3, secondTheft_default)] \<and>
   CrossoutState_advance
       \<lparr>MAX_SUM = 3, tray = [True, True, True, True], ourTurn = True, hashCode = 31\<rparr>
       1 2 = Inr
       \<lparr>MAX_SUM = 3, tray = [False, False, True, True], ourTurn = False, hashCode = 12\<rparr>
       \<and>
   CrossoutState_advance
       \<lparr>MAX_SUM = 3, tray = [True, True, True, True], ourTurn = True, hashCode = 31\<rparr>
       2 1 = Inr
       \<lparr>MAX_SUM = 3, tray = [False, False, True, True], ourTurn = False, hashCode = 12\<rparr>
       \<and>
   CrossoutState_successors
       \<lparr>MAX_SUM = 3, tray = [True, True, True, True], ourTurn = True, hashCode = 31\<rparr>
       = Inl AssertionFailed"
  by code_simp

subsection \<open>C4: every successor is subsequent\<close>

text \<open>
  C4: in either build, \<^verbatim>\<open>areSubsequent\<close> is true of a position \<open>P\<close> and every position of
  the list that \<^verbatim>\<open>successors\<close> of \<open>P\<close> returns.  With assertions enabled that list is
  empty whenever \<^verbatim>\<open>successors\<close> returns (lemma \<open>successors_asserts_on\<close>); without
  assertions it holds a position for every call the loops make.
\<close>

theorem C4_successors_subsequent:
  assumes "CrossoutState_successors P = Inr possibilities \<or>
           CrossoutState_successors_NDEBUG P = Inr possibilities"
    and "S \<in> set possibilities"
  shows "CrossoutState_areSubsequent P S"
proof -
  from assms(1) show ?thesis
  proof
    assume r: "CrossoutState_successors P = Inr possibilities"
    then have "possibilities = []"
      by (simp add: successors_asserts_on split: if_splits)
    with assms(2) show ?thesis by simp
  next
    assume r: "CrossoutState_successors_NDEBUG P = Inr possibilities"
    from construct_all_NDEBUG_member [OF r [unfolded CrossoutState_successors_NDEBUG_def] assms(2)]
    obtain a b where call: "(a, b) \<in> set (successors_calls P)"
      and adv: "CrossoutState_advance_NDEBUG P a b = Inr S"
      by blast
    from successors_call_NDEBUG [OF call] adv
    have "1 \<le> a" "a \<le> int (length (tray P))" "tray P ! nat (a - 1)"
      "MAX_SUM S = MAX_SUM P" "ourTurn S = (\<not> ourTurn P)"
      "(a \<le> MAX_SUM P \<and> tray S = (tray P)[nat (a - 1) := False]) \<or>
       (\<exists>b'. 1 \<le> b' \<and> b' \<le> int (length (tray P)) \<and> tray P ! nat (b' - 1) \<and>
             a \<noteq> b' \<and> a + b' \<le> MAX_SUM P \<and>
             tray S = (tray P)[nat (a - 1) := False, nat (b' - 1) := False])"
      by auto
    then show ?thesis by (rule legal_move_subsequent)
  qed
qed

theorem C4_successors_subsequent_witness:
  "CrossoutState_successors_NDEBUG
      \<lparr>MAX_SUM = 3, tray = [True, True, True, True], ourTurn = True, hashCode = 31\<rparr> =
     Inr [\<lparr>MAX_SUM = 3, tray = [False, True, True, True], ourTurn = False, hashCode = 14\<rparr>,
      \<lparr>MAX_SUM = 3, tray = [False, True, True, True], ourTurn = False, hashCode = 14\<rparr>,
      \<lparr>MAX_SUM = 3, tray = [False, False, True, True], ourTurn = False, hashCode = 12\<rparr>,
      \<lparr>MAX_SUM = 3, tray = [True, False, True, True], ourTurn = False, hashCode = 13\<rparr>,
      \<lparr>MAX_SUM = 3, tray = [False, False, True, True], ourTurn = False, hashCode = 12\<rparr>,
      \<lparr>MAX_SUM = 3, tray = [True, True, False, True], ourTurn = False, hashCode = 11\<rparr>] \<and>
   \<lparr>MAX_SUM = 3, tray = [False, False, True, True], ourTurn = False, hashCode = 12\<rparr>
   \<in> set [\<lparr>MAX_SUM = 3, tray = [False, True, True, True], ourTurn = False, hashCode = 14\<rparr>,
      \<lparr>MAX_SUM = 3, tray = [False, True, True, True], ourTurn = False, hashCode = 14\<rparr>,
      \<lparr>MAX_SUM = 3, tray = [False, False, True, True], ourTurn = False, hashCode = 12\<rparr>,
      \<lparr>MAX_SUM = 3, tray = [True, False, True, True], ourTurn = False, hashCode = 13\<rparr>,
      \<lparr>MAX_SUM = 3, tray = [False, False, True, True], ourTurn = False, hashCode = 12\<rparr>,
      \<lparr>MAX_SUM = 3, tray = [True, True, False, True], ourTurn = False, hashCode = 11\<rparr>] \<and>
   CrossoutState_areSubsequent
       \<lparr>MAX_SUM = 3, tray = [True, True, True, True], ourTurn = True, hashCode = 31\<rparr>
       \<lparr>MAX_SUM = 3, tray = [False, False, True, True], ourTurn = False, hashCode = 12\<rparr>"
proof -
  have n: "CrossoutState_successors_NDEBUG
      \<lparr>MAX_SUM = 3, tray = [True, True, True, True], ourTurn = True, hashCode = 31\<rparr> =
     Inr [\<lparr>MAX_SUM = 3, tray = [False, True, True, True], ourTurn = False, hashCode = 14\<rparr>,
      \<lparr>MAX_SUM = 3, tray = [False, True, True, True], ourTurn = False, hashCode = 14\<rparr>,
      \<lparr>MAX_SUM = 3, tray = [False, False, True, True], ourTurn = False, hashCode = 12\<rparr>,
      \<lparr>MAX_SUM = 3, tray = [True, False, True, True], ourTurn = False, hashCode = 13\<rparr>,
      \<lparr>MAX_SUM = 3, tray = [False, False, True, True], ourTurn = False, hashCode = 12\<rparr>,
      \<lparr>MAX_SUM = 3, tray = [True, True, False, True], ourTurn = False, hashCode = 11\<rparr>]"
    by code_simp
  have m: "\<lparr>MAX_SUM = 3, tray = [False, False, True, True], ourTurn = False, hashCode = 12\<rparr>
  \<in> set [\<lparr>MAX_SUM = 3, tray = [False, True, True, True], ourTurn = False, hashCode = 14\<rparr>,
      \<lparr>MAX_SUM = 3, tray = [False, True, True, True], ourTurn = False, hashCode = 14\<rparr>,
      \<lparr>MAX_SUM = 3, tray = [False, False, True, True], ourTurn = False, hashCode = 12\<rparr>,
      \<lparr>MAX_SUM = 3, tray = [True, False, True, True], ourTurn = False, hashCode = 13\<rparr>,
      \<lparr>MAX_SUM = 3, tray = [False, False, True, True], ourTurn = False, hashCode = 12\<rparr>,
      \<lparr>MAX_SUM = 3, tray = [True, True, False, True], ourTurn = False, hashCode = 11\<rparr>]"
    by simp
  from n m C4_successors_subsequent [OF disjI2 [OF n] m] show ?thesis by blast
qed

subsection \<open>C5: equal positions and their hashes\<close>

text \<open>
  C5 says that positions equal by \<^verbatim>\<open>operator==\<close> have equal hashes.
  \<^verbatim>\<open>CrossoutState::operator==\<close> does not compare the sizes of the trays (as
  \<^verbatim>\<open>KaylesState::operator==\<close> and \<^verbatim>\<open>areSubsequent\<close> do), so the game of the number 1
  equals the game of the numbers 1 and 2; their hashes are 3 and 7.
\<close>

theorem C5_equal_hash_differs:
  "CrossoutState_new 3 1 True = Inr
      \<lparr>MAX_SUM = 3, tray = [True], ourTurn = True, hashCode = 3\<rparr> \<and>
   CrossoutState_new 3 2 True = Inr
       \<lparr>MAX_SUM = 3, tray = [True, True], ourTurn = True, hashCode = 7\<rparr> \<and>
   CrossoutState_operator_eq
       \<lparr>MAX_SUM = 3, tray = [True], ourTurn = True, hashCode = 3\<rparr>
       \<lparr>MAX_SUM = 3, tray = [True, True], ourTurn = True, hashCode = 7\<rparr>
       = Inr True \<and>
   CrossoutState_hash
       \<lparr>MAX_SUM = 3, tray = [True], ourTurn = True, hashCode = 3\<rparr> = 3 \<and>
   CrossoutState_hash
       \<lparr>MAX_SUM = 3, tray = [True, True], ourTurn = True, hashCode = 7\<rparr> = 7"
  by code_simp

subsection \<open>C6: what operator== compares\<close>

text \<open>
  C6 says that two positions are equal if and only if their turn owners and their whole
  states match.  For \<^verbatim>\<open>CrossoutState\<close> the comparison runs over the receiver's tray
  only: a position equals one whose tray extends its own, and comparing in the other
  direction reads past the end of the shorter tray.
\<close>

theorem C6_equal_trays_differ:
  "CrossoutState_new 5 2 False = Inr
      \<lparr>MAX_SUM = 5, tray = [True, True], ourTurn = False, hashCode = 3\<rparr> \<and>
   CrossoutState_new 5 3 False = Inr
       \<lparr>MAX_SUM = 5, tray = [True, True, True], ourTurn = False, hashCode = 7\<rparr> \<and>
   CrossoutState_operator_eq
       \<lparr>MAX_SUM = 5, tray = [True, True], ourTurn = False, hashCode = 3\<rparr>
       \<lparr>MAX_SUM = 5, tray = [True, True, True], ourTurn = False, hashCode = 7\<rparr>
       = Inr True \<and>
   length (tray
       \<lparr>MAX_SUM = 5, tray = [True, True], ourTurn = False, hashCode = 3\<rparr>) = 2 \<and>
   length (tray
       \<lparr>MAX_SUM = 5, tray = [True, True, True], ourTurn = False, hashCode = 7\<rparr>) = 3 \<and>
   CrossoutState_operator_eq
       \<lparr>MAX_SUM = 5, tray = [True, True, True], ourTurn = False, hashCode = 7\<rparr>
       \<lparr>MAX_SUM = 5, tray = [True, True], ourTurn = False, hashCode = 3\<rparr>
       = Inl OutOfRange"
  by code_simp

subsection \<open>C7: diff and the advancing constructor\<close>

text \<open>
  C7: when \<^verbatim>\<open>areSubsequent\<close> is true of \<open>P\<close> and \<open>Q\<close>, \<^verbatim>\<open>diff\<close> returns the removed
  numbers (1-based, in increasing order, present in \<open>P\<close> and crossed out in \<open>Q\<close>), and the
  advancing constructor applied to \<open>P\<close> and these numbers returns a position with the
  bound, the tray and the turn of \<open>Q\<close>, which \<^verbatim>\<open>operator==\<close> finds equal to \<open>Q\<close>.

  With assertions enabled this is stated of the positions that exist in that build
  (\<open>constructed\<close>).  They differ in two numbers: a position with an odd number of
  crossed-out entries cannot be constructed there (lemma \<open>constructed_even\<close>), the
  constructor call for a single number being the one that aborts (lemma
  \<open>advance_single_aborts\<close>).  Without assertions it holds of any two states; the list
  has one number, and the constructor is called with its default second argument, or two.
\<close>

theorem C7_diff_roundtrip:
  assumes "CrossoutState_areSubsequent P Q"
  shows "(constructed P \<and> constructed Q \<longrightarrow>
           (\<exists>a b. CrossoutState_diff P Q = Inr [a, b] \<and> a < b \<and>
                1 \<le> a \<and> b \<le> int (length (tray P)) \<and>
                tray P ! nat (a - 1) \<and> \<not> tray Q ! nat (a - 1) \<and>
                tray P ! nat (b - 1) \<and> \<not> tray Q ! nat (b - 1) \<and>
                (\<exists>R. CrossoutState_advance P a b = Inr R \<and>
                     MAX_SUM R = MAX_SUM Q \<and> tray R = tray Q \<and> ourTurn R = ourTurn Q \<and>
                     CrossoutState_operator_eq R Q = Inr True))) \<and>
         ((\<exists>a. CrossoutState_diff_NDEBUG P Q = Inr [a] \<and>
                1 \<le> a \<and> a \<le> int (length (tray P)) \<and>
                tray P ! nat (a - 1) \<and> \<not> tray Q ! nat (a - 1) \<and>
                (\<exists>R. CrossoutState_advance_NDEBUG P a secondTheft_default = Inr R \<and>
                     MAX_SUM R = MAX_SUM Q \<and> tray R = tray Q \<and> ourTurn R = ourTurn Q \<and>
                     CrossoutState_operator_eq R Q = Inr True)) \<or>
          (\<exists>a b. CrossoutState_diff_NDEBUG P Q = Inr [a, b] \<and> a < b \<and>
                1 \<le> a \<and> b \<le> int (length (tray P)) \<and>
                tray P ! nat (a - 1) \<and> \<not> tray Q ! nat (a - 1) \<and>
                tray P ! nat (b - 1) \<and> \<not> tray Q ! nat (b - 1) \<and>
                (\<exists>R. CrossoutState_advance_NDEBUG P a b = Inr R \<and>
                     MAX_SUM R = MAX_SUM Q \<and> tray R = tray Q \<and> ourTurn R = ourTurn Q \<and>
                     CrossoutState_operator_eq R Q = Inr True)))"
proof -
  let ?D = "{i. i < length (tray P) \<and> tray P ! i \<and> \<not> tray Q ! i}"
  have len: "length (tray P) = length (tray Q)"
    using assms [unfolded areSubsequent_iff] by blast
  have d: "CrossoutState_diff P Q = Inr (diff_loop (tray P) (tray Q) 0)"
    using assms by (simp add: CrossoutState_diff_def)
  have dn: "CrossoutState_diff_NDEBUG P Q = Inr (diff_loop (tray P) (tray Q) 0)"
    using len by (simp add: CrossoutState_diff_NDEBUG_def)
  from assms show ?thesis
  proof (cases rule: subsequent_diff_cases)
    case (one x)
    have x: "x \<in> ?D" using one(1) by simp
    have "\<not> (constructed P \<and> constructed Q)"
    proof
      assume "constructed P \<and> constructed Q"
      then have "card ?D = 2" using constructed_subsequent_two assms by blast
      then show False unfolding one(1) by simp
    qed
    moreover have "CrossoutState_diff_NDEBUG P Q = Inr [int x + 1]"
      using dn one(2) by simp
    ultimately show ?thesis
      using removed_number [OF x] roundtrip_one_NDEBUG [OF assms one(1)] by blast
  next
    case (two x y)
    have x: "x \<in> ?D" and y: "y \<in> ?D" using two(1) by simp_all
    have ne: "x \<noteq> y" using two(2) by simp
    have lt: "int x + 1 < int y + 1" using two(2) by simp
    have "CrossoutState_diff P Q = Inr [int x + 1, int y + 1]"
      using d two(3) by simp
    moreover have "CrossoutState_diff_NDEBUG P Q = Inr [int x + 1, int y + 1]"
      using dn two(3) by simp
    ultimately show ?thesis
      using lt removed_number [OF x] removed_number [OF y]
        roundtrip_two [OF assms two(1) ne] roundtrip_two_NDEBUG [OF assms two(1)]
      by blast
  qed
qed

theorem C7_diff_roundtrip_witness:
  "constructed
      \<lparr>MAX_SUM = 3, tray = [True, True, True], ourTurn = True, hashCode = 15\<rparr> \<and>
   constructed
       \<lparr>MAX_SUM = 3, tray = [False, False, True], ourTurn = False, hashCode = 4\<rparr>
       \<and>
   CrossoutState_areSubsequent
       \<lparr>MAX_SUM = 3, tray = [True, True, True], ourTurn = True, hashCode = 15\<rparr>
       \<lparr>MAX_SUM = 3, tray = [False, False, True], ourTurn = False, hashCode = 4\<rparr>
       \<and>
   CrossoutState_diff
       \<lparr>MAX_SUM = 3, tray = [True, True, True], ourTurn = True, hashCode = 15\<rparr>
       \<lparr>MAX_SUM = 3, tray = [False, False, True], ourTurn = False, hashCode = 4\<rparr>
       = Inr [1, 2] \<and>
   (\<exists>R. CrossoutState_advance
       \<lparr>MAX_SUM = 3, tray = [True, True, True], ourTurn = True, hashCode = 15\<rparr>
       1 2 = Inr R \<and>
        tray R = tray
            \<lparr>MAX_SUM = 3, tray = [False, False, True], ourTurn = False, hashCode = 4\<rparr>
            \<and>
        CrossoutState_operator_eq R
            \<lparr>MAX_SUM = 3, tray = [False, False, True], ourTurn = False, hashCode = 4\<rparr>
            = Inr True) \<and>
   CrossoutState_areSubsequent
       \<lparr>MAX_SUM = 3, tray = [True, True, True], ourTurn = True, hashCode = 15\<rparr>
       \<lparr>MAX_SUM = 3, tray = [True, True, False], ourTurn = False, hashCode = 3\<rparr> \<and>
   CrossoutState_diff_NDEBUG
       \<lparr>MAX_SUM = 3, tray = [True, True, True], ourTurn = True, hashCode = 15\<rparr>
       \<lparr>MAX_SUM = 3, tray = [True, True, False], ourTurn = False, hashCode = 3\<rparr>
       = Inr [3] \<and>
   (\<exists>R. CrossoutState_advance_NDEBUG
       \<lparr>MAX_SUM = 3, tray = [True, True, True], ourTurn = True, hashCode = 15\<rparr>
       3 secondTheft_default = Inr R \<and>
        tray R = tray
            \<lparr>MAX_SUM = 3, tray = [True, True, False], ourTurn = False, hashCode = 3\<rparr>
            \<and>
        CrossoutState_operator_eq R
            \<lparr>MAX_SUM = 3, tray = [True, True, False], ourTurn = False, hashCode = 3\<rparr>
            = Inr True)"
proof -
  have n0: "CrossoutState_new 3 3 True = Inr
      \<lparr>MAX_SUM = 3, tray = [True, True, True], ourTurn = True, hashCode = 15\<rparr>"
    by code_simp
  have a1: "CrossoutState_advance
      \<lparr>MAX_SUM = 3, tray = [True, True, True], ourTurn = True, hashCode = 15\<rparr>
      1 2 = Inr
      \<lparr>MAX_SUM = 3, tray = [False, False, True], ourTurn = False, hashCode = 4\<rparr>"
    by code_simp
  have c0: "constructed
      \<lparr>MAX_SUM = 3, tray = [True, True, True], ourTurn = True, hashCode = 15\<rparr>"
    using n0 by (rule constructed.initial)
  have c1: "constructed
      \<lparr>MAX_SUM = 3, tray = [False, False, True], ourTurn = False, hashCode = 4\<rparr>"
    using c0 a1 by (rule constructed.advanced)
  have h2: "CrossoutState_areSubsequent
      \<lparr>MAX_SUM = 3, tray = [True, True, True], ourTurn = True, hashCode = 15\<rparr>
      \<lparr>MAX_SUM = 3, tray = [False, False, True], ourTurn = False, hashCode = 4\<rparr>"
    by code_simp
  have d2: "CrossoutState_diff
      \<lparr>MAX_SUM = 3, tray = [True, True, True], ourTurn = True, hashCode = 15\<rparr>
      \<lparr>MAX_SUM = 3, tray = [False, False, True], ourTurn = False, hashCode = 4\<rparr>
      = Inr [1, 2]"
    by code_simp
  have h1: "CrossoutState_areSubsequent
      \<lparr>MAX_SUM = 3, tray = [True, True, True], ourTurn = True, hashCode = 15\<rparr>
      \<lparr>MAX_SUM = 3, tray = [True, True, False], ourTurn = False, hashCode = 3\<rparr>"
    by code_simp
  have d1: "CrossoutState_diff_NDEBUG
      \<lparr>MAX_SUM = 3, tray = [True, True, True], ourTurn = True, hashCode = 15\<rparr>
      \<lparr>MAX_SUM = 3, tray = [True, True, False], ourTurn = False, hashCode = 3\<rparr>
      = Inr [3]"
    by code_simp
  have two: "\<exists>R. CrossoutState_advance
      \<lparr>MAX_SUM = 3, tray = [True, True, True], ourTurn = True, hashCode = 15\<rparr>
      1 2 = Inr R \<and>
        tray R = tray
            \<lparr>MAX_SUM = 3, tray = [False, False, True], ourTurn = False, hashCode = 4\<rparr>
            \<and>
        CrossoutState_operator_eq R
            \<lparr>MAX_SUM = 3, tray = [False, False, True], ourTurn = False, hashCode = 4\<rparr>
            = Inr True"
    using C7_diff_roundtrip [OF h2] c0 c1 unfolding d2 by auto
  have one: "\<exists>R. CrossoutState_advance_NDEBUG
      \<lparr>MAX_SUM = 3, tray = [True, True, True], ourTurn = True, hashCode = 15\<rparr>
      3 secondTheft_default = Inr R \<and>
        tray R = tray
            \<lparr>MAX_SUM = 3, tray = [True, True, False], ourTurn = False, hashCode = 3\<rparr>
            \<and>
        CrossoutState_operator_eq R
            \<lparr>MAX_SUM = 3, tray = [True, True, False], ourTurn = False, hashCode = 3\<rparr>
            = Inr True"
    using C7_diff_roundtrip [OF h1] unfolding d1 by auto
  show ?thesis
    using c0 c1 h2 d2 two h1 d1 one by blast
qed

subsection \<open>C8: scoreGame\<close>

text \<open>
  C8: when the game is over, \<^verbatim>\<open>scoreGame\<close> is \<^verbatim>\<open>LOSS\<close> if the engine is to move and
  \<^verbatim>\<open>VICTORY\<close> if the opponent is; when it is not over, \<^verbatim>\<open>scoreGame\<close> is \<^verbatim>\<open>TIE\<close>.
  This holds for \<^verbatim>\<open>CrossoutState\<close> with its own \<^verbatim>\<open>gameOver\<close>, and for
  \<^verbatim>\<open>KaylesState\<close> whatever \<^verbatim>\<open>gameOver\<close> computes.
\<close>

theorem C8_scoreGame:
  "(CrossoutState_gameOver c \<and> CrossoutState_computersTurn c \<longrightarrow>
      CrossoutState_scoreGame c = LOSS) \<and>
   (CrossoutState_gameOver c \<and> \<not> CrossoutState_computersTurn c \<longrightarrow>
      CrossoutState_scoreGame c = VICTORY) \<and>
   (\<not> CrossoutState_gameOver c \<longrightarrow> CrossoutState_scoreGame c = TIE) \<and>
   (gameOver k \<and> KaylesState_computersTurn k \<longrightarrow>
      KaylesState_scoreGame gameOver k = LOSS) \<and>
   (gameOver k \<and> \<not> KaylesState_computersTurn k \<longrightarrow>
      KaylesState_scoreGame gameOver k = VICTORY) \<and>
   (\<not> gameOver k \<longrightarrow> KaylesState_scoreGame gameOver k = TIE)"
  by (simp add: CrossoutState_scoreGame_def CrossoutState_computersTurn_def
      KaylesState_scoreGame_def KaylesState_computersTurn_def)

theorem C8_scoreGame_witness:
  "CrossoutState_gameOver
      \<lparr>MAX_SUM = 3, tray = [False, False, False], ourTurn = True, hashCode = 8\<rparr>
      \<and> CrossoutState_computersTurn
      \<lparr>MAX_SUM = 3, tray = [False, False, False], ourTurn = True, hashCode = 8\<rparr> \<and>
   CrossoutState_scoreGame
       \<lparr>MAX_SUM = 3, tray = [False, False, False], ourTurn = True, hashCode = 8\<rparr>
       = LOSS \<and>
   CrossoutState_gameOver
       \<lparr>MAX_SUM = 3, tray = [False, False, True], ourTurn = False, hashCode = 4\<rparr>
       \<and> \<not> CrossoutState_computersTurn
       \<lparr>MAX_SUM = 3, tray = [False, False, True], ourTurn = False, hashCode = 4\<rparr>
       \<and>
   CrossoutState_scoreGame
       \<lparr>MAX_SUM = 3, tray = [False, False, True], ourTurn = False, hashCode = 4\<rparr>
       = VICTORY \<and>
   \<not> CrossoutState_gameOver
       \<lparr>MAX_SUM = 3, tray = [True, True, True], ourTurn = True, hashCode = 15\<rparr>
       \<and> CrossoutState_scoreGame
       \<lparr>MAX_SUM = 3, tray = [True, True, True], ourTurn = True, hashCode = 15\<rparr>
       = TIE \<and>
   KaylesState_scoreGame (\<lambda>s. pins s = [])
     \<lparr>pins = [], kayles_ourTurn = True, kayles_hashCode = 0\<rparr> = LOSS \<and>
   KaylesState_scoreGame (\<lambda>s. pins s = [])
     \<lparr>pins = [], kayles_ourTurn = False, kayles_hashCode = 0\<rparr> = VICTORY \<and>
   KaylesState_scoreGame (\<lambda>s. pins s = [])
     \<lparr>pins = [3], kayles_ourTurn = True, kayles_hashCode = 0\<rparr> = TIE"
proof -
  have g2: "CrossoutState_gameOver
      \<lparr>MAX_SUM = 3, tray = [False, False, False], ourTurn = True, hashCode = 8\<rparr>" by code_simp
  have g1: "CrossoutState_gameOver
      \<lparr>MAX_SUM = 3, tray = [False, False, True], ourTurn = False, hashCode = 4\<rparr>" by code_simp
  have g0: "\<not> CrossoutState_gameOver
      \<lparr>MAX_SUM = 3, tray = [True, True, True], ourTurn = True, hashCode = 15\<rparr>" by code_simp
  show ?thesis
    using g2 g1 g0
      C8_scoreGame [of "\<lparr>MAX_SUM = 3, tray = [False, False, False], ourTurn = True, hashCode = 8\<rparr>" "\<lambda>s. pins s = []"
        "\<lparr>pins = [], kayles_ourTurn = True, kayles_hashCode = 0\<rparr>"]
      C8_scoreGame [of "\<lparr>MAX_SUM = 3, tray = [False, False, True], ourTurn = False, hashCode = 4\<rparr>" "\<lambda>s. pins s = []"
        "\<lparr>pins = [], kayles_ourTurn = False, kayles_hashCode = 0\<rparr>"]
      C8_scoreGame [of "\<lparr>MAX_SUM = 3, tray = [True, True, True], ourTurn = True, hashCode = 15\<rparr>" "\<lambda>s. pins s = []"
        "\<lparr>pins = [3], kayles_ourTurn = True, kayles_hashCode = 0\<rparr>"]
    by (simp add: CrossoutState_computersTurn_def KaylesState_computersTurn_def)
qed

subsection \<open>C9: queries with an index out of range\<close>

text \<open>
  C9 says that \<^verbatim>\<open>pinsInGroup\<close> and \<^verbatim>\<open>hasSpaceAt\<close> both answer an index out of range
  with a value rather than an abort.  \<^verbatim>\<open>pinsInGroup\<close> does (it returns \<open>-1\<close>);
  \<^verbatim>\<open>hasSpaceAt\<close> asserts \<^verbatim>\<open>column<COLUMNS\<close> and aborts, as on column 3 of an empty
  board of three columns.
\<close>

theorem C9_hasSpaceAt_aborts:
  "COLUMNS \<lparr>COLUMNS = 3, ELEMENTS = 3, mySymbol = 0, board = [[], [], []],
      connect3_ourTurn = True, finalOutcome = TIE, connect3_hashCode = 0\<rparr> \<le> 3 \<and>
   Connect3State_hasSpaceAt \<lparr>COLUMNS = 3, ELEMENTS = 3, mySymbol = 0, board = [[], [], []],
      connect3_ourTurn = True, finalOutcome = TIE, connect3_hashCode = 0\<rparr> 3 = Inl AssertionFailed"
  by (simp add: Connect3State_hasSpaceAt_def)

text \<open>
  C9 as amended: for every group out of range \<^verbatim>\<open>pinsInGroup\<close> returns \<open>-1\<close>, and for
  every column out of range \<^verbatim>\<open>hasSpaceAt\<close> aborts by its assertion.
\<close>

theorem C9_queries:
  "(grp \<ge> length (pins k) \<longrightarrow> KaylesState_pinsInGroup k grp = -1) \<and>
   (column \<ge> COLUMNS c \<longrightarrow> Connect3State_hasSpaceAt c column = Inl AssertionFailed)"
  by (simp add: KaylesState_pinsInGroup_def Connect3State_hasSpaceAt_def)

theorem C9_queries_witness:
  "(1::nat) \<ge> length (pins \<lparr>pins = [3], kayles_ourTurn = True, kayles_hashCode = 0\<rparr>) \<and>
   KaylesState_pinsInGroup \<lparr>pins = [3], kayles_ourTurn = True, kayles_hashCode = 0\<rparr> 1 = -1 \<and>
   (5::nat) \<ge> COLUMNS \<lparr>COLUMNS = 3, ELEMENTS = 3, mySymbol = 0, board = [[], [], []],
      connect3_ourTurn = True, finalOutcome = TIE, connect3_hashCode = 0\<rparr> \<and>
   Connect3State_hasSpaceAt \<lparr>COLUMNS = 3, ELEMENTS = 3, mySymbol = 0, board = [[], [], []],
      connect3_ourTurn = True, finalOutcome = TIE, connect3_hashCode = 0\<rparr> 5 = Inl AssertionFailed"
  using C9_queries [of "\<lparr>pins = [3], kayles_ourTurn = True, kayles_hashCode = 0\<rparr>" 1
      "\<lparr>COLUMNS = 3, ELEMENTS = 3, mySymbol = 0, board = [[], [], []],
      connect3_ourTurn = True, finalOutcome = TIE, connect3_hashCode = 0\<rparr>" 5]
  by simp

subsection \<open>C10: the advancing constructor with two numbers\<close>

text \<open>
  C10: for 1-based indices \<open>a\<close> and \<open>b\<close> within the tray, the advancing constructor
  succeeds when \<open>a \<noteq> b\<close> and both numbers are present, whatever \<open>a + b\<close> is (the sum
  bound is not looked at); the new state has the same bound, the turn flipped, and the
  tray of the base with exactly \<open>a\<close> and \<open>b\<close> crossed out.  When \<open>a = b\<close>, or \<open>a\<close> or
  \<open>b\<close> is absent, an assertion fails.
\<close>

theorem C10_advance:
  assumes "1 \<le> a" and "a \<le> int (length (tray base))"
    and "1 \<le> b" and "b \<le> int (length (tray base))"
  shows "(a \<noteq> b \<and> tray base ! nat (a - 1) \<and> tray base ! nat (b - 1) \<longrightarrow>
            (\<exists>r. CrossoutState_advance base a b = Inr r \<and>
                 MAX_SUM r = MAX_SUM base \<and>
                 ourTurn r = (\<not> ourTurn base) \<and>
                 tray r = (tray base)[nat (a - 1) := False, nat (b - 1) := False] \<and>
                 length (tray r) = length (tray base) \<and>
                 (\<forall>i < length (tray base).
                    tray r ! i = (tray base ! i \<and> int i \<noteq> a - 1 \<and> int i \<noteq> b - 1)))) \<and>
         (a = b \<or> \<not> tray base ! nat (a - 1) \<or> \<not> tray base ! nat (b - 1) \<longrightarrow>
            CrossoutState_advance base a b = Inl AssertionFailed)"
proof (intro conjI impI)
  assume ok: "a \<noteq> b \<and> tray base ! nat (a - 1) \<and> tray base ! nat (b - 1)"
  let ?t = "(tray base)[nat (a - 1) := False, nat (b - 1) := False]"
  have ne: "nat (a - 1) \<noteq> nat (b - 1)"
    using ok assms by auto
  have adv: "CrossoutState_advance base a b =
      cacheHash
          \<lparr>MAX_SUM = MAX_SUM base, tray = ?t, ourTurn = (\<not> ourTurn base), hashCode = 0\<rparr>"
    using ok assms ne by (simp add: CrossoutState_advance_def Let_def)
  have el: "\<forall>i < length (tray base).
      ?t ! i = (tray base ! i \<and> int i \<noteq> a - 1 \<and> int i \<noteq> b - 1)"
    using assms by (auto simp: nth_list_update)
  show "\<exists>r. CrossoutState_advance base a b = Inr r \<and>
            MAX_SUM r = MAX_SUM base \<and>
            ourTurn r = (\<not> ourTurn base) \<and>
            tray r = ?t \<and>
            length (tray r) = length (tray base) \<and>
            (\<forall>i < length (tray base).
               tray r ! i = (tray base ! i \<and> int i \<noteq> a - 1 \<and> int i \<noteq> b - 1))"
    using el by (simp add: adv cacheHash_Inr)
next
  assume bad: "a = b \<or> \<not> tray base ! nat (a - 1) \<or> \<not> tray base ! nat (b - 1)"
  have la: "nat (a - 1) < length (tray base)" and lb: "nat (b - 1) < length (tray base)"
    using assms by auto
  show "CrossoutState_advance base a b = Inl AssertionFailed"
    using bad assms la lb by (auto simp: CrossoutState_advance_def Let_def nth_list_update)
qed

theorem C10_advance_witness:
  "(1::int) \<le> 3 \<and> 3 \<le> int (length (tray
      \<lparr>MAX_SUM = 3, tray = [True, True, True, True], ourTurn = True, hashCode = 31\<rparr>)) \<and>
   (1::int) \<le> 4 \<and> 4 \<le> int (length (tray
       \<lparr>MAX_SUM = 3, tray = [True, True, True, True], ourTurn = True, hashCode = 31\<rparr>)) \<and>
   MAX_SUM
       \<lparr>MAX_SUM = 3, tray = [True, True, True, True], ourTurn = True, hashCode = 31\<rparr>
       < 3 + 4 \<and>
   (\<exists>r. CrossoutState_advance
       \<lparr>MAX_SUM = 3, tray = [True, True, True, True], ourTurn = True, hashCode = 31\<rparr>
       3 4 = Inr r \<and>
        MAX_SUM r = 3 \<and> ourTurn r = False \<and> tray r = [True, True, False, False]) \<and>
   CrossoutState_advance
       \<lparr>MAX_SUM = 3, tray = [True, True, True, True], ourTurn = True, hashCode = 31\<rparr>
       3 3 = Inl AssertionFailed"
proof -
  have h: "(1::int) \<le> 3" "3 \<le> int (length (tray
      \<lparr>MAX_SUM = 3, tray = [True, True, True, True], ourTurn = True, hashCode = 31\<rparr>))"
    "(1::int) \<le> 4" "4 \<le> int (length (tray
        \<lparr>MAX_SUM = 3, tray = [True, True, True, True], ourTurn = True, hashCode = 31\<rparr>))"
    by simp_all
  show ?thesis
    using C10_advance [OF h(1) h(2) h(3) h(4)] C10_advance [OF h(1) h(2) h(1) h(2)]
    by auto
qed

end
